theory Spec2Isabelle
  imports Main "HOL-Library.AList"
begin

section \<open>Errors\<close>

text \<open>
  The exceptions of \<^verbatim>\<open>ag3.py\<close>, as values. \<open>ValueError\<close> and \<open>TypeError\<close> are the two
  classes the module raises itself; \<open>KeyError\<close> and \<open>IndexError\<close> come from item access
  in pandas, zarr, numpy and dask, \<open>AttributeError\<close> from a method the object lacks; \<open>RecursionError\<close> is the interpreter's answer to a
  call chain deeper than its limit; \<open>StorageError\<close> stands for whatever the file system
  or a parser raises when a path cannot be opened or read, and is passed on unchanged.
  The formatted value of a message is appended as it is (without the quotes of
  \<^verbatim>\<open>!r\<close>).
\<close>

datatype error =
    ValueError string
  | TypeError string
  | KeyError string
  | IndexError string
  | AttributeError string
  | RecursionError
  | StorageError string

definition then_do :: "error + 'a \<Rightarrow> ('a \<Rightarrow> error + 'b) \<Rightarrow> error + 'b" where
  "then_do r f = (case r of Inl e \<Rightarrow> Inl e | Inr x \<Rightarrow> f x)"

section \<open>Tables (pandas.DataFrame)\<close>

text \<open>
  A cell of a table is missing (\<open>NaN\<close>), a text or a number. A row is an association
  list from column names to cells; a column the row does not mention reads as \<open>NaN\<close>,
  which is how pandas fills a column that a concatenated table lacks. A frame has its
  column names in order, its row labels (\<open>index\<close>) and its rows.
\<close>

datatype cell = NaN | Text string | Num int

type_synonym row = "(string \<times> cell) list"

record frame =
  columns :: "string list"
  index :: "nat list"
  rows :: "row list"

definition value_at :: "row \<Rightarrow> string \<Rightarrow> cell" where
  "value_at r c = (case map_of r c of Some v \<Rightarrow> v | None \<Rightarrow> NaN)"

text \<open>What \<^verbatim>\<open>pandas.read_csv\<close> returns: the header, the rows, and a fresh range index.\<close>

definition new_frame :: "string list \<times> row list \<Rightarrow> frame" where
  "new_frame t = \<lparr>columns = fst t, index = [0..<length (snd t)], rows = snd t\<rparr>"

definition add_column :: "string \<Rightarrow> string list \<Rightarrow> string list" where
  "add_column c cs = (if c \<in> set cs then cs else cs @ [c])"

text \<open>\<^verbatim>\<open>df[c] = v\<close> for a scalar \<open>v\<close>: every row gets the value.\<close>

definition assign_scalar :: "string \<Rightarrow> cell \<Rightarrow> frame \<Rightarrow> frame" where
  "assign_scalar c v df =
     df\<lparr>columns := add_column c (columns df), rows := map (AList.update c v) (rows df)\<rparr>"

text \<open>
  \<^verbatim>\<open>df[c] = values\<close> for an array of values, one per row. The only use in the module
  passes an array built with the frame's own length.
\<close>

definition assign_values :: "string \<Rightarrow> cell list \<Rightarrow> frame \<Rightarrow> frame" where
  "assign_values c vs df =
     df\<lparr>columns := add_column c (columns df),
        rows := map2 (\<lambda>v r. AList.update c v r) vs (rows df)\<rparr>"

text \<open>\<^verbatim>\<open>df[c]\<close>: the values of a column, or \<open>KeyError\<close> when the frame has no such column.\<close>

definition getitem :: "frame \<Rightarrow> string \<Rightarrow> error + cell list" where
  "getitem df c =
     (if c \<in> set (columns df) then Inr (map (\<lambda>r. value_at r c) (rows df))
      else Inl (KeyError c))"

text \<open>\<^verbatim>\<open>values == "text"\<close>, element by element: a missing value equals no text.\<close>

definition eq_text :: "cell list \<Rightarrow> string \<Rightarrow> bool list" where
  "eq_text vs s = map (\<lambda>v. v = Text s) vs"

definition and_mask :: "bool list \<Rightarrow> bool list \<Rightarrow> bool list" where
  "and_mask a b = map2 (\<lambda>x y. x \<and> y) a b"

text \<open>
  \<^verbatim>\<open>df.loc[loc, c] = v\<close>: the rows selected by the boolean array \<open>loc\<close> get the value.
  The arrays the module passes are computed from columns of the same frame.
\<close>

definition loc_assign :: "bool list \<Rightarrow> string \<Rightarrow> cell \<Rightarrow> frame \<Rightarrow> frame" where
  "loc_assign loc c v df =
     df\<lparr>columns := add_column c (columns df),
        rows := map2 (\<lambda>b r. if b then AList.update c v r else r) loc (rows df)\<rparr>"

text \<open>
  \<^verbatim>\<open>pandas.concat(dfs, axis=0, sort=False)\<close>: the rows and the row labels of the
  frames one after the other, the columns in order of first appearance; an empty list of
  frames is refused.
\<close>

definition union_columns :: "string list list \<Rightarrow> string list" where
  "union_columns css = fold add_column (concat css) []"

definition concat_frames :: "frame list \<Rightarrow> error + frame" where
  "concat_frames dfs =
     (if dfs = [] then Inl (ValueError ''No objects to concatenate'')
      else Inr \<lparr>columns = union_columns (map columns dfs),
                index = concat (map index dfs),
                rows = concat (map rows dfs)\<rparr>)"

text \<open>\<^verbatim>\<open>df.reset_index(drop=True)\<close>: the row labels become 0, 1, 2, ...\<close>

definition reset_index :: "frame \<Rightarrow> frame" where
  "reset_index df = df\<lparr>index := [0..<length (rows df)]\<rparr>"

text \<open>
  \<^verbatim>\<open>left.merge(right, on=key, sort=False)\<close>, pandas' default inner join with the
  suffixes \<^verbatim>\<open>_x\<close> and \<^verbatim>\<open>_y\<close>, as pandas 1.5 computes it.

  The key must be a column of both frames (\<open>KeyError\<close> otherwise). Then pandas compares
  the dtypes of the two key columns. The dtype is the one \<^verbatim>\<open>read_csv\<close> inferred from the
  cells: a column with a text cell, or without any row, is \<open>object\<close>; a column of numbers
  only is \<open>int64\<close>; numbers and missing values give \<open>float64\<close>. When both key columns
  have rows, one is of texts (and missing values) only and the other numeric, pandas
  raises \<open>ValueError\<close>; a key column without rows is never checked, and an \<open>object\<close>
  column that holds numbers beside its texts is let through.
\<close>

datatype dtype = Int64 | Float64 | Object

definition is_text :: "cell \<Rightarrow> bool" where
  "is_text v = (case v of Text t \<Rightarrow> True | _ \<Rightarrow> False)"

definition is_num :: "cell \<Rightarrow> bool" where
  "is_num v = (case v of Num n \<Rightarrow> True | _ \<Rightarrow> False)"

definition column_dtype :: "cell list \<Rightarrow> dtype" where
  "column_dtype vs =
     (if vs = [] \<or> list_ex is_text vs then Object
      else if list_all is_num vs then Int64 else Float64)"

definition dtype_name :: "dtype \<Rightarrow> string" where
  "dtype_name d = (case d of Int64 \<Rightarrow> ''int64'' | Float64 \<Rightarrow> ''float64'' | Object \<Rightarrow> ''object'')"

text \<open>What \<^verbatim>\<open>lib.infer_dtype\<close> calls \<open>string\<close> or \<open>mixed\<close>: texts, maybe missing values, no number.\<close>

definition string_like :: "cell list \<Rightarrow> bool" where
  "string_like vs = (list_ex is_text vs \<and> \<not> list_ex is_num vs)"

definition merge_keys_ok :: "cell list \<Rightarrow> cell list \<Rightarrow> bool" where
  "merge_keys_ok lk rk =
     (lk = [] \<or> rk = [] \<or>
      \<not> ((string_like lk \<and> column_dtype rk \<noteq> Object) \<or>
         (column_dtype lk \<noteq> Object \<and> string_like rk)))"

text \<open>
  The columns of the result: those of the left frame, then those of the right frame
  but the key. A column other than the key that both frames have is renamed with the
  suffix \<^verbatim>\<open>_x\<close> on the left and \<^verbatim>\<open>_y\<close> on the right. When the left frame has no row,
  pandas drops the key from the left frame instead, so the key stands among the
  columns of the right frame.
\<close>

definition left_name :: "string \<Rightarrow> frame \<Rightarrow> frame \<Rightarrow> string \<Rightarrow> string" where
  "left_name key l r c = (if c \<noteq> key \<and> c \<in> set (columns r) then c @ ''_x'' else c)"

definition right_name :: "string \<Rightarrow> frame \<Rightarrow> frame \<Rightarrow> string \<Rightarrow> string" where
  "right_name key l r c = (if c \<noteq> key \<and> c \<in> set (columns l) then c @ ''_y'' else c)"

definition merge_columns :: "string \<Rightarrow> frame \<Rightarrow> frame \<Rightarrow> string list" where
  "merge_columns key l r =
     (if rows l = []
      then map (left_name key l r) (filter (\<lambda>c. c \<noteq> key) (columns l)) @
           map (right_name key l r) (columns r)
      else map (left_name key l r) (columns l) @
           map (right_name key l r) (filter (\<lambda>c. c \<noteq> key) (columns r)))"

text \<open>
  One row of the result, for a left row \<open>a\<close> and a right row \<open>b\<close> with equal keys: the
  cells of \<open>a\<close> under the left names, then the cells of \<open>b\<close> under the right names.
\<close>

definition join_row :: "string \<Rightarrow> frame \<Rightarrow> frame \<Rightarrow> row \<Rightarrow> row \<Rightarrow> row" where
  "join_row key l r a b =
     map (\<lambda>c. (left_name key l r c, value_at a c)) (columns l) @
     map (\<lambda>c. (right_name key l r c, value_at b c)) (filter (\<lambda>c. c \<noteq> key) (columns r))"

text \<open>
  The rows of the result. pandas numbers the key values in order of first appearance
  (\<open>first_seen\<close>) and writes the result group by group: for each key value of the left
  frame, every left row with that key, in order, paired with every right row with that
  key, in order. Missing keys are a group like any other, so a missing key matches a
  missing key.
\<close>

definition first_seen :: "'a list \<Rightarrow> 'a list" where
  "first_seen xs = rev (remdups (rev xs))"

definition merge_rows :: "string \<Rightarrow> frame \<Rightarrow> frame \<Rightarrow> row list" where
  "merge_rows key l r =
     concat (map (\<lambda>k.
        concat (map (\<lambda>a. map (join_row key l r a)
                            (filter (\<lambda>b. value_at b key = k) (rows r)))
                    (filter (\<lambda>a. value_at a key = k) (rows l))))
       (first_seen (map (\<lambda>a. value_at a key) (rows l))))"

definition merge :: "string \<Rightarrow> frame \<Rightarrow> frame \<Rightarrow> error + frame" where
  "merge key l r =
     (if key \<notin> set (columns l) \<or> key \<notin> set (columns r) then Inl (KeyError key)
      else if \<not> merge_keys_ok (map (\<lambda>a. value_at a key) (rows l))
                               (map (\<lambda>b. value_at b key) (rows r))
      then Inl (ValueError (''You are trying to merge on '' @
                  dtype_name (column_dtype (map (\<lambda>a. value_at a key) (rows l))) @ '' and '' @
                  dtype_name (column_dtype (map (\<lambda>b. value_at b key) (rows r))) @
                  '' columns. If you wish to proceed you should use pd.concat''))
      else Inr \<lparr>columns = merge_columns key l r,
                index = [0..<length (merge_rows key l r)],
                rows = merge_rows key l r\<rparr>)"

section \<open>Species calls\<close>

text \<open>
  Lines 167 to 184 of \<^verbatim>\<open>_read_species_calls\<close>: a column \<open>species\<close> of missing values,
  then five assignments, each to the rows a boolean array selects. A column the table
  lacks raises \<open>KeyError\<close> where it is first read.
\<close>

definition add_species :: "frame \<Rightarrow> error + frame" where
  "add_species df =
     (let df0 = assign_values ''species'' (replicate (length (rows df)) NaN) df in
      then_do (getitem df0 ''species_gambcolu_arabiensis'') (\<lambda>ga.
      let df1 = loc_assign (eq_text ga ''arabiensis'') ''species'' (Text ''arabiensis'') df0 in
      then_do (getitem df1 ''species_gambcolu_arabiensis'') (\<lambda>ga.
      let df2 = loc_assign (eq_text ga ''intermediate'') ''species''
                  (Text ''intermediate_arabiensis_gambiae'') df1 in
      then_do (getitem df2 ''species_gambcolu_arabiensis'') (\<lambda>ga.
      then_do (getitem df2 ''species_gambiae_coluzzii'') (\<lambda>gc.
      let df3 = loc_assign (and_mask (eq_text ga ''gamb_colu'') (eq_text gc ''gambiae''))
                  ''species'' (Text ''gambiae'') df2 in
      then_do (getitem df3 ''species_gambcolu_arabiensis'') (\<lambda>ga.
      then_do (getitem df3 ''species_gambiae_coluzzii'') (\<lambda>gc.
      let df4 = loc_assign (and_mask (eq_text ga ''gamb_colu'') (eq_text gc ''coluzzii''))
                  ''species'' (Text ''coluzzii'') df3 in
      then_do (getitem df4 ''species_gambcolu_arabiensis'') (\<lambda>ga.
      then_do (getitem df4 ''species_gambiae_coluzzii'') (\<lambda>gc.
      Inr (loc_assign (and_mask (eq_text ga ''gamb_colu'') (eq_text gc ''intermediate''))
             ''species'' (Text ''intermediate_gambiae_coluzzii'') df4))))))))))"

text \<open>
  The rule as the specification words it (section 4.4), first match wins: the value of
  \<open>species\<close> for the two raw cells of a row.
\<close>

definition species_rule :: "cell \<Rightarrow> cell \<Rightarrow> cell" where
  "species_rule ga gc =
     (if ga = Text ''arabiensis'' then Text ''arabiensis''
      else if ga = Text ''intermediate'' then Text ''intermediate_arabiensis_gambiae''
      else if ga = Text ''gamb_colu'' \<and> gc = Text ''gambiae'' then Text ''gambiae''
      else if ga = Text ''gamb_colu'' \<and> gc = Text ''coluzzii'' then Text ''coluzzii''
      else if ga = Text ''gamb_colu'' \<and> gc = Text ''intermediate''
        then Text ''intermediate_gambiae_coluzzii''
      else NaN)"

definition species_derived :: "frame \<Rightarrow> bool" where
  "species_derived df =
     (list_all (\<lambda>r. value_at r ''species'' =
                     species_rule (value_at r ''species_gambcolu_arabiensis'')
                                  (value_at r ''species_gambiae_coluzzii''))
               (rows df))"

section \<open>Arrays (zarr, dask, numpy)\<close>

text \<open>
  Arrays are modelled by their values: a dask array is the array it computes. A
  one-dimensional array is the list of its entries along axis 0. The arrays of the sites
  hierarchy hold integers (\<open>POS\<close>) or bytes (\<open>REF\<close>, \<open>ALT\<close>, one text per site).

  A genotype array has shape (sites, samples, ...). It is kept by sample: \<open>samples\<close> has
  one entry per index of axis 1, the calls of that sample along axis 0, each call the
  integers of the trailing axes. \<open>n_sites\<close> is the length of axis 0 and \<open>trailing\<close> the
  lengths of the axes after axis 1.
\<close>

datatype varray = IntArray "int list" | BytesArray "string list"

record garray =
  n_sites :: nat
  trailing :: "nat list"
  samples :: "int list list list"

type_synonym 'a group = "string \<rightharpoonup> 'a"

text \<open>\<^verbatim>\<open>group[name]\<close> on a zarr hierarchy.\<close>

definition zget :: "'a group \<Rightarrow> string \<Rightarrow> error + 'a" where
  "zget g k = (case g k of None \<Rightarrow> Inl (KeyError k) | Some x \<Rightarrow> Inr x)"

definition compress_list :: "bool list \<Rightarrow> 'a list \<Rightarrow> 'a list" where
  "compress_list cond xs = map snd (filter fst (zip cond xs))"

definition count_true :: "bool list \<Rightarrow> nat" where
  "count_true cond = length (filter (\<lambda>b. b) cond)"

text \<open>
  \<^verbatim>\<open>da.compress(condition, a, axis=0)\<close>: dask cuts the array to the length of a shorter
  condition and then selects with the condition as a boolean index, which it refuses
  when the condition is longer than the axis.
\<close>

definition compress :: "bool list \<Rightarrow> 'a list \<Rightarrow> error + 'a list" where
  "compress cond xs =
     (if length xs < length cond then Inl (IndexError ''Boolean array too long for axis 0'')
      else Inr (compress_list cond xs))"

definition compress_varray :: "bool list \<Rightarrow> varray \<Rightarrow> error + varray" where
  "compress_varray cond a =
     (case a of
        IntArray xs \<Rightarrow> then_do (compress cond xs) (\<lambda>ys. Inr (IntArray ys))
      | BytesArray xs \<Rightarrow> then_do (compress cond xs) (\<lambda>ys. Inr (BytesArray ys)))"

definition varray_length :: "varray \<Rightarrow> nat" where
  "varray_length a = (case a of IntArray xs \<Rightarrow> length xs | BytesArray xs \<Rightarrow> length xs)"

definition compress_garray :: "bool list \<Rightarrow> garray \<Rightarrow> error + garray" where
  "compress_garray cond d =
     (if n_sites d < length cond then Inl (IndexError ''Boolean array too long for axis 0'')
      else Inr (d\<lparr>n_sites := count_true cond,
                  samples := map (compress_list cond) (samples d)\<rparr>))"

text \<open>
  \<^verbatim>\<open>da.concatenate(ds, axis=1)\<close>: refused for an empty list and for arrays that differ
  on an axis other than axis 1; otherwise the samples of the arrays, one array after
  the other.
\<close>

definition concatenate :: "garray list \<Rightarrow> error + garray" where
  "concatenate ds =
     (case ds of
        [] \<Rightarrow> Inl (ValueError ''Need array(s) to concatenate'')
      | d # rest \<Rightarrow>
          if list_all (\<lambda>x. n_sites x = n_sites d \<and> trailing x = trailing d) rest
          then Inr \<lparr>n_sites = n_sites d, trailing = trailing d,
                    samples = concat (map samples ds)\<rparr>
          else Inl (ValueError ''Shapes do not align''))"

text \<open>
  \<^verbatim>\<open>a[idx] = vals\<close> with an integer index array, as numpy does it: the values are
  broadcast to the shape of the index (equal length, or a single value), every index
  must lie in \<open>-n \<le> i < n\<close>, a negative index counts from the end, and the writes
  happen in order, so the last write to a place wins.
\<close>

definition broadcast_to :: "nat \<Rightarrow> 'a list \<Rightarrow> error + 'a list" where
  "broadcast_to n vs =
     (if length vs = n then Inr vs
      else if length vs = 1 then Inr (replicate n (hd vs))
      else Inl (ValueError ''shape mismatch: value array could not be broadcast''))"

definition norm_index :: "nat \<Rightarrow> int \<Rightarrow> nat" where
  "norm_index n i = nat (if i < 0 then i + int n else i)"

definition index_ok :: "nat \<Rightarrow> int \<Rightarrow> bool" where
  "index_ok n i = (- int n \<le> i \<and> i < int n)"

definition scatter :: "'a list \<Rightarrow> int list \<Rightarrow> 'a list \<Rightarrow> 'a list" where
  "scatter a idx vs = fold (\<lambda>(i, v) acc. acc[norm_index (length a) i := v]) (zip idx vs) a"

definition setitem :: "'a list \<Rightarrow> int list \<Rightarrow> 'a list \<Rightarrow> error + 'a list" where
  "setitem a idx vals =
     then_do (broadcast_to (length idx) vals) (\<lambda>vs.
       if list_all (index_ok (length a)) idx then Inr (scatter a idx vs)
       else Inl (IndexError ''index out of bounds for axis 0''))"

section \<open>The storage collaborator and the instance\<close>

text \<open>
  The file system and the parsers are parameters: what listing a directory, reading a
  delimited file and opening a consolidated zarr hierarchy give at a path, or the error
  they raise. The four kinds of hierarchy differ in the arrays they hold.
\<close>

record fs =
  ls :: "string \<Rightarrow> error + string list"
  read_csv :: "string \<Rightarrow> char \<Rightarrow> error + string list \<times> row list"
  open_genome_store :: "string \<Rightarrow> error + string group"
  open_sites_store :: "string \<Rightarrow> error + varray group group group"
  open_filters_store :: "string \<Rightarrow> error + bool list group group group"
  open_genotypes_store :: "string \<Rightarrow> error + garray group group group"

text \<open>
  An object made by a physical open or read carries a token for its identity: the
  number of physical opens the instance had attempted before it. Two objects are the
  same object when token and content agree.
\<close>

type_synonym 'a obj = "nat \<times> 'a"

text \<open>
  The fields of an \<^verbatim>\<open>Ag3\<close> instance, and \<open>io_log\<close>: the paths of the physical opens and
  reads attempted so far, oldest first. The caches of the gene set and of the effect
  annotator belong to operations that are not modelled.
\<close>

record ag3 =
  path :: string
  releases :: "string list"
  cache_sample_sets :: "string \<rightharpoonup> frame obj"
  cache_general_metadata :: "string \<rightharpoonup> frame obj"
  cache_species_calls :: "string \<times> string \<times> string \<rightharpoonup> frame obj"
  cache_site_filters :: "string \<times> string \<rightharpoonup> bool list group group group obj"
  cache_snp_sites :: "varray group group group obj option"
  cache_snp_genotypes :: "string \<rightharpoonup> garray group group group obj"
  cache_genome :: "string group obj option"
  io_log :: "string list"

type_synonym 'a io = "ag3 \<Rightarrow> (error + 'a) \<times> ag3"

definition io_bind :: "'a io \<Rightarrow> ('a \<Rightarrow> 'b io) \<Rightarrow> 'b io" where
  "io_bind m f s = (case m s of (Inl e, s1) \<Rightarrow> (Inl e, s1) | (Inr x, s1) \<Rightarrow> f x s1)"

definition io_return :: "'a \<Rightarrow> 'a io" where
  "io_return x s = (Inr x, s)"

definition io_lift :: "error + 'a \<Rightarrow> 'a io" where
  "io_lift r s = (r, s)"

text \<open>A physical open or read of \<open>p\<close> with outcome \<open>r\<close>: logged, and the object tagged.\<close>

definition physical :: "string \<Rightarrow> error + 'a \<Rightarrow> 'a obj io" where
  "physical p r s =
     (case r of
        Inl e \<Rightarrow> (Inl e, s\<lparr>io_log := io_log s @ [p]\<rparr>)
      | Inr x \<Rightarrow> (Inr (length (io_log s), x), s\<lparr>io_log := io_log s @ [p]\<rparr>))"

fun map_io :: "('a \<Rightarrow> 'b io) \<Rightarrow> 'a list \<Rightarrow> 'b list io" where
  "map_io f [] s = (Inr [], s)"
| "map_io f (x # xs) s =
     (case f x s of
        (Inl e, s1) \<Rightarrow> (Inl e, s1)
      | (Inr y, s1) \<Rightarrow>
          (case map_io f xs s1 of
             (Inl e, s2) \<Rightarrow> (Inl e, s2)
           | (Inr ys, s2) \<Rightarrow> (Inr (y # ys), s2)))"

definition public_releases :: "string list" where
  "public_releases = [''v3'']"

definition startswith :: "string \<Rightarrow> string \<Rightarrow> bool" where
  "startswith x pre = (take (length pre) x = pre)"

text \<open>\<^verbatim>\<open>p.split("/")[-1]\<close>: what follows the last slash.\<close>

definition last_part :: "string \<Rightarrow> string" where
  "last_part p = rev (takeWhile (\<lambda>c. c \<noteq> CHR ''/'') (rev p))"

text \<open>
  \<^verbatim>\<open>__init__\<close>, after \<^verbatim>\<open>url_to_fs\<close> has given the file system and the root path; \<open>pre\<close> is
  the keyword argument of that name.
\<close>

definition init :: "fs \<Rightarrow> string \<Rightarrow> bool \<Rightarrow> error + ag3" where
  "init fs root pre =
     then_do (ls fs root) (\<lambda>ps.
       let sub_dirs = map last_part ps;
           rels = filter (\<lambda>d. startswith d ''v3'') sub_dirs;
           rels = (if \<not> pre then filter (\<lambda>d. d \<in> set public_releases) rels else rels)
       in if length rels = 0 then Inl (ValueError (''No releases found at location '' @ root))
          else Inr \<lparr>path = root, releases = rels,
                    cache_sample_sets = Map.empty, cache_general_metadata = Map.empty,
                    cache_species_calls = Map.empty, cache_site_filters = Map.empty,
                    cache_snp_sites = None, cache_snp_genotypes = Map.empty,
                    cache_genome = None, io_log = []\<rparr>)"

section \<open>Manifests and metadata\<close>

text \<open>\<^verbatim>\<open>sample_sets\<close>: the manifest of a release, read once and then served from the cache.\<close>

definition sample_sets :: "fs \<Rightarrow> string \<Rightarrow> frame obj io" where
  "sample_sets fs release s =
     (if release \<notin> set (releases s)
      then (Inl (ValueError (''Release not available: '' @ release)), s)
      else case cache_sample_sets s release of
             Some df \<Rightarrow> (Inr df, s)
           | None \<Rightarrow>
               io_bind
                 (physical (path s @ ''/'' @ release @ ''/manifest.tsv'')
                    (read_csv fs (path s @ ''/'' @ release @ ''/manifest.tsv'') (CHR 0x09)))
                 (\<lambda>t s1.
                    let df = (fst t, assign_scalar ''release'' (Text release) (new_frame (snd t)))
                    in (Inr df, s1\<lparr>cache_sample_sets := (cache_sample_sets s1)(release \<mapsto> df)\<rparr>))
                 s)"

text \<open>
  The property \<^verbatim>\<open>v3_wild\<close>: the sample sets of release v3 but the crosses. The model
  returns the cells of the column; a cell that is no text is kept, as Python keeps it.
\<close>

definition v3_wild :: "fs \<Rightarrow> cell list io" where
  "v3_wild fs =
     io_bind (sample_sets fs ''v3'') (\<lambda>df.
     io_bind (io_lift (getitem (snd df) ''sample_set'')) (\<lambda>col.
     io_return (filter (\<lambda>x. x \<noteq> Text ''AG1000G-X'') col)))"

text \<open>\<^verbatim>\<open>_lookup_release\<close>: the first release, in discovery order, whose manifest lists the sample set.\<close>

fun lookup_release_loop :: "fs \<Rightarrow> string \<Rightarrow> string list \<Rightarrow> string io" where
  "lookup_release_loop fs sample_set [] s =
     (Inl (ValueError (''No release found for sample set '' @ sample_set)), s)"
| "lookup_release_loop fs sample_set (release # rest) s =
     io_bind (sample_sets fs release) (\<lambda>df_sample_sets.
     io_bind (io_lift (getitem (snd df_sample_sets) ''sample_set'')) (\<lambda>col.
       if Text sample_set \<in> set col then io_return release
       else lookup_release_loop fs sample_set rest)) s"

definition lookup_release :: "fs \<Rightarrow> string \<Rightarrow> string io" where
  "lookup_release fs sample_set s = lookup_release_loop fs sample_set (releases s) s"

definition read_general_metadata :: "fs \<Rightarrow> string \<Rightarrow> frame obj io" where
  "read_general_metadata fs sample_set s =
     (case cache_general_metadata s sample_set of
        Some df \<Rightarrow> (Inr df, s)
      | None \<Rightarrow>
          io_bind (lookup_release fs sample_set) (\<lambda>release s1.
          io_bind
            (physical (path s1 @ ''/'' @ release @ ''/metadata/general/'' @ sample_set
                         @ ''/samples.meta.csv'')
               (read_csv fs (path s1 @ ''/'' @ release @ ''/metadata/general/'' @ sample_set
                               @ ''/samples.meta.csv'') (CHR '','')))
            (\<lambda>t s2.
               let df = (fst t, assign_scalar ''release'' (Text release)
                                  (assign_scalar ''sample_set'' (Text sample_set)
                                     (new_frame (snd t))))
               in (Inr df,
                   s2\<lparr>cache_general_metadata := (cache_general_metadata s2)(sample_set \<mapsto> df)\<rparr>))
            s1) s)"

definition read_species_calls :: "fs \<Rightarrow> string \<Rightarrow> string \<Rightarrow> string \<Rightarrow> frame obj io" where
  "read_species_calls fs sample_set analysis method s =
     (case cache_species_calls s (sample_set, analysis, method) of
        Some df \<Rightarrow> (Inr df, s)
      | None \<Rightarrow>
          io_bind (lookup_release fs sample_set) (\<lambda>release s1.
          io_bind
            (physical (path s1 @ ''/'' @ release @ ''/metadata/species_calls_'' @ analysis
                         @ ''/'' @ sample_set @ ''/samples.species_'' @ method @ ''.csv'')
               (read_csv fs (path s1 @ ''/'' @ release @ ''/metadata/species_calls_'' @ analysis
                               @ ''/'' @ sample_set @ ''/samples.species_'' @ method @ ''.csv'')
                  (CHR '','')))
            (\<lambda>t.
          io_bind (io_lift (add_species (new_frame (snd t)))) (\<lambda>df s2.
               (Inr (fst t, df),
                s2\<lparr>cache_species_calls :=
                     (cache_species_calls s2)((sample_set, analysis, method) \<mapsto> (fst t, df))\<rparr>)))
            s1) s)"

section \<open>The sample-sets argument\<close>

text \<open>
  What a caller may pass as \<^verbatim>\<open>sample_sets\<close> (\<open>sets\<close> below): a string, a list or tuple of further such
  values, or a value of another type. A cell of a manifest that is no text is such a
  value.
\<close>

datatype arg = Str string | Seq "arg list" | Other

definition cell_arg :: "cell \<Rightarrow> arg" where
  "cell_arg c = (case c of Text x \<Rightarrow> Str x | _ \<Rightarrow> Other)"

definition prep_sample_sets_arg :: "fs \<Rightarrow> arg \<Rightarrow> arg io" where
  "prep_sample_sets_arg fs sets =
     (if sets = Str ''v3_wild''
      then io_bind (v3_wild fs) (\<lambda>xs. io_return (Seq (map cell_arg xs)))
      else case sets of
             Str x \<Rightarrow>
               if startswith x ''v3''
               then io_bind (sample_sets fs x) (\<lambda>df.
                    io_bind (io_lift (getitem (snd df) ''sample_set'')) (\<lambda>col.
                    io_return (Seq (map cell_arg col))))
               else io_return (Str x)
           | Seq xs \<Rightarrow> io_return (Seq xs)
           | Other \<Rightarrow> io_lift (Inl (TypeError ''Invalid sample_sets'')))"

text \<open>
  \<^verbatim>\<open>species_calls\<close> and \<^verbatim>\<open>sample_metadata\<close> call themselves on the elements of a list.
  The first argument bounds the depth of these calls, as the interpreter's recursion
  limit does: a manifest may name a release, and then the calls need not end. The
  argument \<^verbatim>\<open>species_calls\<close> of \<^verbatim>\<open>sample_metadata\<close> is \<open>calls\<close>.
\<close>

primrec species_calls :: "nat \<Rightarrow> fs \<Rightarrow> arg \<Rightarrow> string \<Rightarrow> string \<Rightarrow> frame io" where
  "species_calls 0 fs sets analysis method = io_lift (Inl RecursionError)"
| "species_calls (Suc depth) fs sets analysis method =
     io_bind (prep_sample_sets_arg fs sets) (\<lambda>prepared.
       case prepared of
         Str x \<Rightarrow>
           io_bind (read_species_calls fs x analysis method) (\<lambda>df. io_return (snd df))
       | Seq cs \<Rightarrow>
           io_bind (map_io (\<lambda>c. species_calls depth fs c analysis method) cs) (\<lambda>dfs.
           io_bind (io_lift (concat_frames dfs)) (\<lambda>df. io_return (reset_index df)))
       | Other \<Rightarrow> io_lift (Inl (TypeError ''Invalid sample_sets'')))"


section \<open>Site filters, sites, genotypes, genome\<close>

definition open_site_filters :: "fs \<Rightarrow> string \<Rightarrow> string \<Rightarrow> bool list group group group obj io" where
  "open_site_filters fs mask_id analysis s =
     (case cache_site_filters s (mask_id, analysis) of
        Some root \<Rightarrow> (Inr root, s)
      | None \<Rightarrow>
          io_bind
            (physical (path s @ ''/v3/site_filters/'' @ analysis @ ''/'' @ mask_id @ ''/'')
               (open_filters_store fs
                  (path s @ ''/v3/site_filters/'' @ analysis @ ''/'' @ mask_id @ ''/'')))
            (\<lambda>root s1.
               (Inr root,
                s1\<lparr>cache_site_filters := (cache_site_filters s1)((mask_id, analysis) \<mapsto> root)\<rparr>))
            s)"

definition site_filters :: "fs \<Rightarrow> string \<Rightarrow> string \<Rightarrow> string \<Rightarrow> string \<Rightarrow> bool list io" where
  "site_filters fs contig mask_id field analysis =
     io_bind (open_site_filters fs mask_id analysis) (\<lambda>root.
     io_lift (then_do (zget (snd root) contig) (\<lambda>g.
              then_do (zget g ''variants'') (\<lambda>v. zget v field))))"

definition open_snp_sites :: "fs \<Rightarrow> varray group group group obj io" where
  "open_snp_sites fs s =
     (case cache_snp_sites s of
        None \<Rightarrow>
          io_bind
            (physical (path s @ ''/v3/snp_genotypes/all/sites/'')
               (open_sites_store fs (path s @ ''/v3/snp_genotypes/all/sites/'')))
            (\<lambda>root s1. (Inr root, s1\<lparr>cache_snp_sites := Some root\<rparr>))
            s
      | Some root \<Rightarrow> (Inr root, s))"

text \<open>
  \<^verbatim>\<open>snp_sites\<close> returns one array, or the tuple of \<open>POS\<close>, \<open>REF\<close> and \<open>ALT\<close> when no
  field is given. \<open>snp_sites_field\<close> is the call with a field and without a mask, which
  is also the call it makes on itself for each of the three fields.
\<close>

datatype sites = One varray | Three varray varray varray

definition snp_sites_field :: "fs \<Rightarrow> string \<Rightarrow> string \<Rightarrow> varray io" where
  "snp_sites_field fs contig field =
     io_bind (open_snp_sites fs) (\<lambda>root.
     io_lift (then_do (zget (snd root) contig) (\<lambda>g.
              then_do (zget g ''variants'') (\<lambda>v. zget v field))))"

definition snp_sites ::
  "fs \<Rightarrow> string \<Rightarrow> string option \<Rightarrow> string option \<Rightarrow> string \<Rightarrow> sites io" where
  "snp_sites fs contig field site_mask site_filters_analysis =
     io_bind
       (case field of
          None \<Rightarrow>
            io_bind (snp_sites_field fs contig ''POS'') (\<lambda>pos.
            io_bind (snp_sites_field fs contig ''REF'') (\<lambda>ref.
            io_bind (snp_sites_field fs contig ''ALT'') (\<lambda>alt.
            io_return (Three pos ref alt))))
        | Some f \<Rightarrow> io_bind (snp_sites_field fs contig f) (\<lambda>a. io_return (One a)))
       (\<lambda>ret.
          case site_mask of
            None \<Rightarrow> io_return ret
          | Some mask_id \<Rightarrow>
              io_bind (site_filters fs contig mask_id ''filter_pass'' site_filters_analysis)
                (\<lambda>filter_pass.
                   io_lift
                     (case ret of
                        Three pos ref alt \<Rightarrow>
                          then_do (compress_varray filter_pass pos) (\<lambda>p.
                          then_do (compress_varray filter_pass ref) (\<lambda>r.
                          then_do (compress_varray filter_pass alt) (\<lambda>a.
                          Inr (Three p r a))))
                      | One d \<Rightarrow>
                          then_do (compress_varray filter_pass d) (\<lambda>a. Inr (One a)))))"

definition open_snp_genotypes :: "fs \<Rightarrow> string \<Rightarrow> garray group group group obj io" where
  "open_snp_genotypes fs sample_set s =
     (case cache_snp_genotypes s sample_set of
        Some root \<Rightarrow> (Inr root, s)
      | None \<Rightarrow>
          io_bind (lookup_release fs sample_set) (\<lambda>release s1.
          io_bind
            (physical (path s1 @ ''/'' @ release @ ''/snp_genotypes/all/'' @ sample_set @ ''/'')
               (open_genotypes_store fs
                  (path s1 @ ''/'' @ release @ ''/snp_genotypes/all/'' @ sample_set @ ''/'')))
            (\<lambda>root s2.
               (Inr root,
                s2\<lparr>cache_snp_genotypes := (cache_snp_genotypes s2)(sample_set \<mapsto> root)\<rparr>))
            s1) s)"

text \<open>
  \<^verbatim>\<open>snp_genotypes\<close>, with the depth bound of the calls on itself. Those calls pass
  neither a mask nor a filter analysis, so they run with the defaults.
\<close>

primrec snp_genotypes ::
  "nat \<Rightarrow> fs \<Rightarrow> string \<Rightarrow> arg \<Rightarrow> string \<Rightarrow> string option \<Rightarrow> string \<Rightarrow> garray io" where
  "snp_genotypes 0 fs contig sets field site_mask site_filters_analysis =
     io_lift (Inl RecursionError)"
| "snp_genotypes (Suc depth) fs contig sets field site_mask site_filters_analysis =
     io_bind (prep_sample_sets_arg fs sets) (\<lambda>prepared.
     io_bind
       (case prepared of
          Str x \<Rightarrow>
            io_bind (open_snp_genotypes fs x) (\<lambda>root.
            io_lift (then_do (zget (snd root) contig) (\<lambda>g.
                     then_do (zget g ''calldata'') (\<lambda>v. zget v field))))
        | Seq cs \<Rightarrow>
            io_bind
              (map_io (\<lambda>c. snp_genotypes depth fs contig c field None ''dt_20200416'') cs)
              (\<lambda>ds. io_lift (concatenate ds))
        | Other \<Rightarrow> io_lift (Inl (TypeError ''Invalid sample_sets'')))
       (\<lambda>d.
          case site_mask of
            None \<Rightarrow> io_return d
          | Some mask_id \<Rightarrow>
              io_bind (site_filters fs contig mask_id ''filter_pass'' site_filters_analysis)
                (\<lambda>filter_pass. io_lift (compress_garray filter_pass d))))"

definition open_genome :: "fs \<Rightarrow> string group obj io" where
  "open_genome fs s =
     (case cache_genome s of
        None \<Rightarrow>
          io_bind
            (physical
               (path s @ ''/reference/genome/agamp4/Anopheles-gambiae-PEST_CHROMOSOMES_AgamP4.zarr'')
               (open_genome_store fs
                  (path s @ ''/reference/genome/agamp4/Anopheles-gambiae-PEST_CHROMOSOMES_AgamP4.zarr'')))
            (\<lambda>root s1. (Inr root, s1\<lparr>cache_genome := Some root\<rparr>))
            s
      | Some root \<Rightarrow> (Inr root, s))"

definition genome_sequence :: "fs \<Rightarrow> string \<Rightarrow> string io" where
  "genome_sequence fs contig =
     io_bind (open_genome fs) (\<lambda>genome. io_lift (zget (snd genome) contig))"

section \<open>Accessibility\<close>

text \<open>
  \<^verbatim>\<open>is_accessible\<close>: a vector of \<open>False\<close> as long as the contig, then the one assignment
  \<^verbatim>\<open>is_accessible[pos - 1] = filter_pass\<close>, where \<open>pos\<close> is what
  \<^verbatim>\<open>snp_sites(contig, field="POS")\<close> returns (no mask, the default analysis) and
  \<open>filter_pass\<close> what \<^verbatim>\<open>site_filters\<close> returns for the mask. Positions are taken as
  integers; subtracting one from an array of bytes is a type error in numpy, and a
  tuple of arrays has no \<^verbatim>\<open>compute\<close>. \<open>POS\<close> is an array of 32-bit signed integers in
  the store, and numpy computes \<^verbatim>\<open>pos - 1\<close> in the type of the array, silently: one less
  than the least value is the greatest value.
\<close>

definition positions :: "sites \<Rightarrow> error + int list" where
  "positions ret =
     (case ret of
        One a \<Rightarrow>
          (case a of
             IntArray xs \<Rightarrow> Inr xs
           | BytesArray xs \<Rightarrow> Inl (TypeError ''unsupported operand type(s) for -''))
      | Three pos ref alt \<Rightarrow> Inl (AttributeError ''compute''))"

definition minus_one :: "int \<Rightarrow> int" where
  "minus_one p = (if p = - 2147483648 then 2147483647 else p - 1)"

definition is_accessible :: "fs \<Rightarrow> string \<Rightarrow> string \<Rightarrow> string \<Rightarrow> bool list io" where
  "is_accessible fs contig site_mask site_filters_analysis =
     io_bind (genome_sequence fs contig) (\<lambda>sequence.
     let seq_length = length sequence;
         is_accessible0 = replicate seq_length False
     in
     io_bind (snp_sites fs contig (Some ''POS'') None ''dt_20200416'') (\<lambda>pos.
     io_bind (site_filters fs contig site_mask ''filter_pass'' site_filters_analysis)
       (\<lambda>filter_pass.
     io_lift (then_do (positions pos) (\<lambda>ps.
              setitem is_accessible0 (map minus_one ps) filter_pass)))))"

section \<open>Cache invariants\<close>

text \<open>
  \<open>extends s t\<close>: \<open>t\<close> is a later state of the instance \<open>s\<close>. Root and releases are
  the same, no cache has lost or changed an entry, and the log has only grown.
\<close>

definition extends :: "ag3 \<Rightarrow> ag3 \<Rightarrow> bool" where
  "extends s t \<longleftrightarrow>
     path t = path s \<and> releases t = releases s \<and>
     cache_sample_sets s \<subseteq>\<^sub>m cache_sample_sets t \<and>
     cache_general_metadata s \<subseteq>\<^sub>m cache_general_metadata t \<and>
     cache_species_calls s \<subseteq>\<^sub>m cache_species_calls t \<and>
     cache_site_filters s \<subseteq>\<^sub>m cache_site_filters t \<and>
     (cache_snp_sites s = None \<or> cache_snp_sites t = cache_snp_sites s) \<and>
     cache_snp_genotypes s \<subseteq>\<^sub>m cache_snp_genotypes t \<and>
     (cache_genome s = None \<or> cache_genome t = cache_genome s) \<and>
     (\<exists>ys. io_log t = io_log s @ ys)"

text \<open>The instance with the same root and releases, before any call.\<close>

definition fresh :: "ag3 \<Rightarrow> ag3" where
  "fresh s = \<lparr>path = path s, releases = releases s,
              cache_sample_sets = Map.empty, cache_general_metadata = Map.empty,
              cache_species_calls = Map.empty, cache_site_filters = Map.empty,
              cache_snp_sites = None, cache_snp_genotypes = Map.empty,
              cache_genome = None, io_log = []\<rparr>"

text \<open>A cached object without its identity token.\<close>

definition content :: "'a obj io \<Rightarrow> 'a io" where
  "content m = io_bind m (\<lambda>ob. io_return (snd ob))"

text \<open>
  \<open>coherent fs s\<close>: every cache entry holds what the same call returns on the instance
  before any call, so what the storage holds at the entry's path.
\<close>

definition coherent :: "fs \<Rightarrow> ag3 \<Rightarrow> bool" where
  "coherent fs s \<longleftrightarrow>
     (\<forall>k ob. cache_sample_sets s k = Some ob \<longrightarrow>
        fst (content (sample_sets fs k) (fresh s)) = Inr (snd ob)) \<and>
     (\<forall>k ob. cache_general_metadata s k = Some ob \<longrightarrow>
        fst (content (read_general_metadata fs k) (fresh s)) = Inr (snd ob)) \<and>
     (\<forall>k a m ob. cache_species_calls s (k, a, m) = Some ob \<longrightarrow>
        fst (content (read_species_calls fs k a m) (fresh s)) = Inr (snd ob)) \<and>
     (\<forall>m a ob. cache_site_filters s (m, a) = Some ob \<longrightarrow>
        fst (content (open_site_filters fs m a) (fresh s)) = Inr (snd ob)) \<and>
     (\<forall>ob. cache_snp_sites s = Some ob \<longrightarrow>
        fst (content (open_snp_sites fs) (fresh s)) = Inr (snd ob)) \<and>
     (\<forall>k ob. cache_snp_genotypes s k = Some ob \<longrightarrow>
        fst (content (open_snp_genotypes fs k) (fresh s)) = Inr (snd ob)) \<and>
     (\<forall>ob. cache_genome s = Some ob \<longrightarrow>
        fst (content (open_genome fs) (fresh s)) = Inr (snd ob))"

text \<open>
  \<open>stable fs m\<close>: on a coherent instance the operation \<open>m\<close> keeps the instance coherent,
  only extends it, and returns what it returns on the instance before any call.
\<close>

definition stable :: "fs \<Rightarrow> 'a io \<Rightarrow> bool" where
  "stable fs m \<longleftrightarrow>
     (\<forall>s. coherent fs s \<longrightarrow>
        coherent fs (snd (m s)) \<and> extends s (snd (m s)) \<and> fst (m s) = fst (m (fresh s)))"

text \<open>\<open>manifests_only s t\<close>: the two states differ at most in the manifest cache and the log.\<close>

definition manifests_only :: "ag3 \<Rightarrow> ag3 \<Rightarrow> bool" where
  "manifests_only s t \<longleftrightarrow>
     t = s\<lparr>cache_sample_sets := cache_sample_sets t, io_log := io_log t\<rparr>"

section \<open>An example store\<close>

text \<open>
  A small store with one release and two sample sets, and the instance that
  \<^verbatim>\<open>Ag3("data")\<close> creates on it. The examples below run the operations on it.
\<close>

definition example_fs :: fs where
  "example_fs =
     \<lparr>ls = (\<lambda>p. if p = ''data'' then Inr [''data/v3'', ''data/v3.1'', ''data/notes''] else Inl (StorageError p)),
      read_csv = (\<lambda>p sep.
        if p = ''data/v3/manifest.tsv'' then
          Inr ([''sample_set''], [[(''sample_set'', Text ''A'')], [(''sample_set'', Text ''B'')]])
        else if p = ''data/v3/metadata/general/A/samples.meta.csv'' then
          Inr ([''sample_id'', ''country''],
               [[(''sample_id'', Text ''a1''), (''country'', Text ''ML'')],
                [(''sample_id'', Text ''a2''), (''country'', Text ''BF'')]])
        else if p = ''data/v3/metadata/general/B/samples.meta.csv'' then
          Inr ([''sample_id'', ''country''],
               [[(''sample_id'', Text ''b1''), (''country'', Text ''KE'')]])
        else if p = ''data/v3/metadata/species_calls_20200422/A/samples.species_aim.csv'' then
          Inr ([''sample_id'', ''species_gambcolu_arabiensis'', ''species_gambiae_coluzzii''],
               [[(''sample_id'', Text ''a1''), (''species_gambcolu_arabiensis'', Text ''gamb_colu''),
                 (''species_gambiae_coluzzii'', Text ''coluzzii'')],
                [(''sample_id'', Text ''a3''), (''species_gambcolu_arabiensis'', Text ''arabiensis''),
                 (''species_gambiae_coluzzii'', NaN)]])
        else if p = ''data/v3/metadata/species_calls_20200422/B/samples.species_aim.csv'' then
          Inr ([''sample_id'', ''species_gambcolu_arabiensis'', ''species_gambiae_coluzzii''],
               [[(''sample_id'', Text ''b1''), (''species_gambcolu_arabiensis'', NaN),
                 (''species_gambiae_coluzzii'', NaN)]])
        else Inl (StorageError p)),
      open_genome_store = (\<lambda>p.
        if p = ''data/reference/genome/agamp4/Anopheles-gambiae-PEST_CHROMOSOMES_AgamP4.zarr''
        then Inr [''3R'' \<mapsto> ''ACGTA''] else Inl (StorageError p)),
      open_sites_store = (\<lambda>p.
        if p = ''data/v3/snp_genotypes/all/sites/''
        then Inr [''3R'' \<mapsto> [''variants'' \<mapsto>
                    [''POS'' \<mapsto> IntArray [1, 3, 4],
                     ''REF'' \<mapsto> BytesArray [''A'', ''G'', ''T''],
                     ''ALT'' \<mapsto> BytesArray [''CGT'', ''ACT'', ''ACG'']]]]
        else Inl (StorageError p)),
      open_filters_store = (\<lambda>p.
        if p = ''data/v3/site_filters/dt_20200416/gamb_colu/''
        then Inr [''3R'' \<mapsto> [''variants'' \<mapsto> [''filter_pass'' \<mapsto> [True, False, True]]]]
        else Inl (StorageError p)),
      open_genotypes_store = (\<lambda>p.
        if p = ''data/v3/snp_genotypes/all/A/''
        then Inr [''3R'' \<mapsto> [''calldata'' \<mapsto> [''GT'' \<mapsto>
               \<lparr>n_sites = 3, trailing = [2],
                samples = [[[0, 0], [0, 1], [1, 1]], [[0, 1], [0, 0], [0, 0]]]\<rparr>]]]
        else if p = ''data/v3/snp_genotypes/all/B/''
        then Inr [''3R'' \<mapsto> [''calldata'' \<mapsto> [''GT'' \<mapsto>
               \<lparr>n_sites = 3, trailing = [2], samples = [[[1, 1], [1, 1], [0, 1]]]\<rparr>]]]
        else Inl (StorageError p))\<rparr>"

definition example_ag3 :: ag3 where
  "example_ag3 =
     \<lparr>path = ''data'', releases = [''v3''],
      cache_sample_sets = Map.empty, cache_general_metadata = Map.empty,
      cache_species_calls = Map.empty, cache_site_filters = Map.empty,
      cache_snp_sites = None, cache_snp_genotypes = Map.empty,
      cache_genome = None, io_log = []\<rparr>"

text \<open>
  The instance that \<^verbatim>\<open>Ag3("data", pre=True)\<close> creates: release \<open>v3.1\<close> has a directory and
  no manifest yet.
\<close>

definition example_pre_ag3 :: ag3 where
  "example_pre_ag3 = example_ag3\<lparr>releases := [''v3'', ''v3.1'']\<rparr>"

text \<open>The same store with nothing readable but the manifest of release \<open>v3\<close>.\<close>

definition broken_fs :: fs where
  "broken_fs =
     example_fs\<lparr>
       read_csv := (\<lambda>p sep.
         if p = ''data/v3/manifest.tsv'' then
           Inr ([''sample_set''], [[(''sample_set'', Text ''A'')], [(''sample_set'', Text ''B'')]])
         else Inl (StorageError p)),
       open_filters_store := (\<lambda>p. Inl (StorageError p)),
       open_genotypes_store := (\<lambda>p. Inl (StorageError p))\<rparr>"

text \<open>
  The example store with other site positions on contig \<open>3R\<close> (the reference and
  alternate alleles are left out; the accessibility map does not read them).
\<close>

definition sites_fs :: "int list \<Rightarrow> fs" where
  "sites_fs ps =
     example_fs\<lparr>open_sites_store := (\<lambda>p.
        if p = ''data/v3/snp_genotypes/all/sites/''
        then Inr [''3R'' \<mapsto> [''variants'' \<mapsto> [''POS'' \<mapsto> IntArray ps]]]
        else Inl (StorageError p))\<rparr>"

section \<open>Tables: lemmas\<close>

lemma value_at_update:
  "value_at (AList.update c v r) c' = (if c' = c then v else value_at r c')"
  by (simp add: value_at_def update_conv')

lemma map2_map_left: "map2 f (map g xs) xs = map (\<lambda>x. f (g x) x) xs"
  by (induction xs) auto

lemma map2_replicate_left: "map2 f (replicate (length xs) a) xs = map (f a) xs"
  by (induction xs) auto

lemma rows_loc_assign1:
  "rows (loc_assign (eq_text (map (\<lambda>r. value_at r c1) (rows df)) s) c v df) =
     map (\<lambda>r. if value_at r c1 = Text s then AList.update c v r else r) (rows df)"
  by (simp add: loc_assign_def eq_text_def map2_map_left o_def)

lemma map2_and_left:
  "map2 f (map2 (\<lambda>x y. x \<and> y) (map g xs) (map h xs)) xs = map (\<lambda>x. f (g x \<and> h x) x) xs"
  by (induction xs) auto

lemma rows_loc_assign2:
  "rows (loc_assign (and_mask (eq_text (map (\<lambda>r. value_at r c1) (rows df)) s)
                              (eq_text (map (\<lambda>r. value_at r c2) (rows df)) t)) c v df) =
     map (\<lambda>r. if value_at r c1 = Text s \<and> value_at r c2 = Text t then AList.update c v r else r)
       (rows df)"
  by (simp add: loc_assign_def eq_text_def and_mask_def map2_and_left o_def)

lemma getitem_Inr: "getitem df c = Inr vs \<Longrightarrow> vs = map (\<lambda>r. value_at r c) (rows df)"
  by (auto simp: getitem_def split: if_splits)

lemma then_do_Inr: "then_do r f = Inr y \<longleftrightarrow> (\<exists>x. r = Inr x \<and> f x = Inr y)"
  by (cases r) (auto simp: then_do_def)

lemma loc_assign1:
  assumes "getitem df c1 = Inr ga"
  shows "rows (loc_assign (eq_text ga s) c v df) =
     map (\<lambda>r. if value_at r c1 = Text s then AList.update c v r else r) (rows df)"
  using getitem_Inr[OF assms] by (simp add: rows_loc_assign1)

lemma loc_assign2:
  assumes "getitem df c1 = Inr ga" "getitem df c2 = Inr gc"
  shows "rows (loc_assign (and_mask (eq_text ga s) (eq_text gc t)) c v df) =
     map (\<lambda>r. if value_at r c1 = Text s \<and> value_at r c2 = Text t then AList.update c v r else r)
       (rows df)"
  using getitem_Inr[OF assms(1)] getitem_Inr[OF assms(2)] by (simp add: rows_loc_assign2)

lemma add_species_steps:
  assumes "add_species df = Inr df'"
  obtains df0 ga1 df1 ga2 df2 ga3 gc3 df3 ga4 gc4 df4 ga5 gc5 where
    "df0 = assign_values ''species'' (replicate (length (rows df)) NaN) df"
    "getitem df0 ''species_gambcolu_arabiensis'' = Inr ga1"
    "df1 = loc_assign (eq_text ga1 ''arabiensis'') ''species'' (Text ''arabiensis'') df0"
    "getitem df1 ''species_gambcolu_arabiensis'' = Inr ga2"
    "df2 = loc_assign (eq_text ga2 ''intermediate'') ''species''
                  (Text ''intermediate_arabiensis_gambiae'') df1"
    "getitem df2 ''species_gambcolu_arabiensis'' = Inr ga3"
    "getitem df2 ''species_gambiae_coluzzii'' = Inr gc3"
    "df3 = loc_assign (and_mask (eq_text ga3 ''gamb_colu'') (eq_text gc3 ''gambiae''))
                  ''species'' (Text ''gambiae'') df2"
    "getitem df3 ''species_gambcolu_arabiensis'' = Inr ga4"
    "getitem df3 ''species_gambiae_coluzzii'' = Inr gc4"
    "df4 = loc_assign (and_mask (eq_text ga4 ''gamb_colu'') (eq_text gc4 ''coluzzii''))
                  ''species'' (Text ''coluzzii'') df3"
    "getitem df4 ''species_gambcolu_arabiensis'' = Inr ga5"
    "getitem df4 ''species_gambiae_coluzzii'' = Inr gc5"
    "df' = loc_assign (and_mask (eq_text ga5 ''gamb_colu'') (eq_text gc5 ''intermediate''))
             ''species'' (Text ''intermediate_gambiae_coluzzii'') df4"
  using assms unfolding add_species_def Let_def then_do_Inr by blast

lemma add_species_rows:
  assumes "add_species df = Inr df'"
  shows "rows df' = map (\<lambda>r. AList.update ''species''
       (species_rule (value_at r ''species_gambcolu_arabiensis'') (value_at r ''species_gambiae_coluzzii'')) r) (rows df)"
proof -
  from assms obtain df0 ga1 df1 ga2 df2 ga3 gc3 df3 ga4 gc4 df4 ga5 gc5 where
    s: "df0 = assign_values ''species'' (replicate (length (rows df)) NaN) df"
    "getitem df0 ''species_gambcolu_arabiensis'' = Inr ga1"
    "df1 = loc_assign (eq_text ga1 ''arabiensis'') ''species'' (Text ''arabiensis'') df0"
    "getitem df1 ''species_gambcolu_arabiensis'' = Inr ga2"
    "df2 = loc_assign (eq_text ga2 ''intermediate'') ''species''
                  (Text ''intermediate_arabiensis_gambiae'') df1"
    "getitem df2 ''species_gambcolu_arabiensis'' = Inr ga3"
    "getitem df2 ''species_gambiae_coluzzii'' = Inr gc3"
    "df3 = loc_assign (and_mask (eq_text ga3 ''gamb_colu'') (eq_text gc3 ''gambiae''))
                  ''species'' (Text ''gambiae'') df2"
    "getitem df3 ''species_gambcolu_arabiensis'' = Inr ga4"
    "getitem df3 ''species_gambiae_coluzzii'' = Inr gc4"
    "df4 = loc_assign (and_mask (eq_text ga4 ''gamb_colu'') (eq_text gc4 ''coluzzii''))
                  ''species'' (Text ''coluzzii'') df3"
    "getitem df4 ''species_gambcolu_arabiensis'' = Inr ga5"
    "getitem df4 ''species_gambiae_coluzzii'' = Inr gc5"
    "df' = loc_assign (and_mask (eq_text ga5 ''gamb_colu'') (eq_text gc5 ''intermediate''))
             ''species'' (Text ''intermediate_gambiae_coluzzii'') df4"
    by (rule add_species_steps)
  have r0: "rows df0 = map (AList.update ''species'' NaN) (rows df)"
    by (simp add: s(1) assign_values_def map2_replicate_left)
  have r1: "rows df1 = map (\<lambda>r. if value_at r ''species_gambcolu_arabiensis'' = Text ''arabiensis''
                 then AList.update ''species'' (Text ''arabiensis'') r else r) (rows df0)"
    unfolding s(3) by (rule loc_assign1[OF s(2)])
  have r2: "rows df2 = map (\<lambda>r. if value_at r ''species_gambcolu_arabiensis'' = Text ''intermediate''
                 then AList.update ''species'' (Text ''intermediate_arabiensis_gambiae'') r else r) (rows df1)"
    unfolding s(5) by (rule loc_assign1[OF s(4)])
  have r3: "rows df3 = map (\<lambda>r. if value_at r ''species_gambcolu_arabiensis'' = Text ''gamb_colu''
                   \<and> value_at r ''species_gambiae_coluzzii'' = Text ''gambiae''
                 then AList.update ''species'' (Text ''gambiae'') r else r) (rows df2)"
    unfolding s(8) by (rule loc_assign2[OF s(6) s(7)])
  have r4: "rows df4 = map (\<lambda>r. if value_at r ''species_gambcolu_arabiensis'' = Text ''gamb_colu''
                   \<and> value_at r ''species_gambiae_coluzzii'' = Text ''coluzzii''
                 then AList.update ''species'' (Text ''coluzzii'') r else r) (rows df3)"
    unfolding s(11) by (rule loc_assign2[OF s(9) s(10)])
  have r5: "rows df' = map (\<lambda>r. if value_at r ''species_gambcolu_arabiensis'' = Text ''gamb_colu''
                   \<and> value_at r ''species_gambiae_coluzzii'' = Text ''intermediate''
                 then AList.update ''species'' (Text ''intermediate_gambiae_coluzzii'') r else r) (rows df4)"
    unfolding s(14) by (rule loc_assign2[OF s(12) s(13)])
  show ?thesis
    unfolding r5 r4 r3 r2 r1 r0 map_map
    by (rule map_cong[OF refl]) (auto simp add: value_at_update species_rule_def)
qed

section \<open>Cache invariants: lemmas\<close>

lemma extends_refl: "extends s s"
  by (simp add: extends_def)

lemma extends_trans: "extends s t \<Longrightarrow> extends t u \<Longrightarrow> extends s u"
  unfolding extends_def by (auto intro: map_le_trans)

lemma extends_fresh: "extends s t \<Longrightarrow> fresh t = fresh s"
  by (simp add: extends_def fresh_def)

lemma fresh_fresh: "fresh (fresh s) = fresh s"
  by (simp add: fresh_def)

lemma coherent_fresh: "coherent fs (fresh s)"
  by (simp add: coherent_def fresh_def)

lemma coherent_log: "coherent fs (s\<lparr>io_log := l\<rparr>) = coherent fs s"
  by (simp add: coherent_def fresh_def)

lemma stableI:
  assumes "\<And>s r s'. coherent fs s \<Longrightarrow> m s = (r, s') \<Longrightarrow>
             coherent fs s' \<and> extends s s' \<and> fst (m (fresh s)) = r"
  shows "stable fs m"
  unfolding stable_def
proof (intro allI impI)
  fix s assume c: "coherent fs s"
  obtain r s' where "m s = (r, s')" by (cases "m s")
  with assms[OF c this] show "coherent fs (snd (m s)) \<and> extends s (snd (m s)) \<and> fst (m s) = fst (m (fresh s))"
    by simp
qed

lemma stableD:
  assumes "stable fs m" "coherent fs s" "m s = (r, s')"
  shows "coherent fs s'" "extends s s'" "fst (m (fresh s)) = r"
  using assms unfolding stable_def by (metis fst_conv snd_conv)+

lemma stable_agree:
  assumes "stable fs m" "coherent fs s" "coherent fs t" "fresh t = fresh s"
  shows "fst (m t) = fst (m s)"
  using assms unfolding stable_def by metis

lemma stable_return: "stable fs (io_return x)"
  by (rule stableI) (simp add: io_return_def extends_refl)

lemma stable_lift: "stable fs (io_lift r)"
  by (rule stableI) (auto simp add: io_lift_def extends_refl)

lemma stable_bind:
  assumes m: "stable fs m" and f: "\<And>x. stable fs (f x)"
  shows "stable fs (io_bind m f)"
proof (rule stableI)
  fix s r s' assume c: "coherent fs s" and run: "io_bind m f s = (r, s')"
  obtain r1 s1 where m1: "m s = (r1, s1)" by (cases "m s")
  obtain r2 s2 where m2: "m (fresh s) = (r2, s2)" by (cases "m (fresh s)")
  note d1 = stableD[OF m c m1]
  note d2 = stableD[OF m coherent_fresh m2]
  have r12: "r2 = r1" using d1(3) m2 by simp
  show "coherent fs s' \<and> extends s s' \<and> fst (io_bind m f (fresh s)) = r"
  proof (cases r1)
    case (Inl e)
    with run m1 m2 r12 d1 show ?thesis by (simp add: io_bind_def)
  next
    case (Inr x)
    with run m1 have fx: "f x s1 = (r, s')" by (simp add: io_bind_def)
    note e1 = stableD[OF f d1(1) fx]
    have "fresh s2 = fresh s1" using extends_fresh[OF d1(2)] extends_fresh[OF d2(2)]
      by (simp add: fresh_fresh)
    from stable_agree[OF f d1(1) d2(1) this] have "fst (f x s2) = r" using fx by simp
    with Inr m2 r12 e1 d1 show ?thesis by (auto simp add: io_bind_def intro: extends_trans)
  qed
qed

lemma map_io_Cons:
  "map_io f (x # xs) = io_bind (f x) (\<lambda>y. io_bind (map_io f xs) (\<lambda>ys. io_return (y # ys)))"
  by (rule ext) (simp add: io_bind_def io_return_def split: sum.splits prod.splits)

lemma map_io_Nil: "map_io f [] = io_return []"
  by (rule ext) (simp add: io_return_def)

lemma stable_map_io:
  assumes "\<And>x. stable fs (f x)"
  shows "stable fs (map_io f xs)"
proof (induction xs)
  case Nil show ?case unfolding map_io_Nil by (rule stable_return)
next
  case (Cons x xs)
  show ?case unfolding map_io_Cons
    by (intro stable_bind assms Cons.IH stable_return)
qed

lemma bind_snd: "io_bind m (\<lambda>ob. g (snd ob)) = io_bind (content m) g"
  by (rule ext) (simp add: content_def io_bind_def io_return_def split: sum.splits prod.splits)

lemma stable_bind_obj:
  assumes "stable fs (content m)" "\<And>x. stable fs (g x)"
  shows "stable fs (io_bind m (\<lambda>ob. g (snd ob)))"
  unfolding bind_snd by (rule stable_bind[OF assms])

lemma fresh_upd [simp]:
  "fresh (s\<lparr>io_log := l\<rparr>) = fresh s"
  "fresh (s\<lparr>cache_sample_sets := c1\<rparr>) = fresh s"
  "fresh (s\<lparr>cache_general_metadata := c2\<rparr>) = fresh s"
  "fresh (s\<lparr>cache_species_calls := c3\<rparr>) = fresh s"
  "fresh (s\<lparr>cache_site_filters := c4\<rparr>) = fresh s"
  "fresh (s\<lparr>cache_snp_sites := c5\<rparr>) = fresh s"
  "fresh (s\<lparr>cache_snp_genotypes := c6\<rparr>) = fresh s"
  "fresh (s\<lparr>cache_genome := c7\<rparr>) = fresh s"
  by (simp_all add: fresh_def)

lemma coherent_upd_sample_sets:
  "coherent fs s \<Longrightarrow> fst (content (sample_sets fs k) (fresh s)) = Inr (snd ob) \<Longrightarrow>
   coherent fs (s\<lparr>cache_sample_sets := (cache_sample_sets s)(k \<mapsto> ob)\<rparr>)"
  by (simp add: coherent_def)

lemma coherent_upd_general_metadata:
  "coherent fs s \<Longrightarrow> fst (content (read_general_metadata fs k) (fresh s)) = Inr (snd ob) \<Longrightarrow>
   coherent fs (s\<lparr>cache_general_metadata := (cache_general_metadata s)(k \<mapsto> ob)\<rparr>)"
  by (simp add: coherent_def)

lemma coherent_upd_species_calls:
  "coherent fs s \<Longrightarrow> fst (content (read_species_calls fs k a m) (fresh s)) = Inr (snd ob) \<Longrightarrow>
   coherent fs (s\<lparr>cache_species_calls := (cache_species_calls s)((k, a, m) \<mapsto> ob)\<rparr>)"
  by (simp add: coherent_def)

lemma coherent_upd_site_filters:
  "coherent fs s \<Longrightarrow> fst (content (open_site_filters fs m a) (fresh s)) = Inr (snd ob) \<Longrightarrow>
   coherent fs (s\<lparr>cache_site_filters := (cache_site_filters s)((m, a) \<mapsto> ob)\<rparr>)"
  by (simp add: coherent_def)

lemma coherent_upd_snp_sites:
  "coherent fs s \<Longrightarrow> fst (content (open_snp_sites fs) (fresh s)) = Inr (snd ob) \<Longrightarrow>
   coherent fs (s\<lparr>cache_snp_sites := Some ob\<rparr>)"
  by (simp add: coherent_def)

lemma coherent_upd_snp_genotypes:
  "coherent fs s \<Longrightarrow> fst (content (open_snp_genotypes fs k) (fresh s)) = Inr (snd ob) \<Longrightarrow>
   coherent fs (s\<lparr>cache_snp_genotypes := (cache_snp_genotypes s)(k \<mapsto> ob)\<rparr>)"
  by (simp add: coherent_def)

lemma coherent_upd_genome:
  "coherent fs s \<Longrightarrow> fst (content (open_genome fs) (fresh s)) = Inr (snd ob) \<Longrightarrow>
   coherent fs (s\<lparr>cache_genome := Some ob\<rparr>)"
  by (simp add: coherent_def)

lemma fresh_sel [simp]:
  "path (fresh s) = path s" "releases (fresh s) = releases s"
  "cache_sample_sets (fresh s) = Map.empty" "cache_general_metadata (fresh s) = Map.empty"
  "cache_species_calls (fresh s) = Map.empty" "cache_site_filters (fresh s) = Map.empty"
  "cache_snp_sites (fresh s) = None" "cache_snp_genotypes (fresh s) = Map.empty"
  "cache_genome (fresh s) = None" "io_log (fresh s) = []"
  by (simp_all add: fresh_def)

lemma coherentD:
  assumes "coherent fs s"
  shows "cache_sample_sets s k = Some ob1 \<Longrightarrow>
           fst (content (sample_sets fs k) (fresh s)) = Inr (snd ob1)"
    and "cache_general_metadata s k = Some ob2 \<Longrightarrow>
           fst (content (read_general_metadata fs k) (fresh s)) = Inr (snd ob2)"
    and "cache_species_calls s (k, a, m) = Some ob3 \<Longrightarrow>
           fst (content (read_species_calls fs k a m) (fresh s)) = Inr (snd ob3)"
    and "cache_site_filters s (m, a) = Some ob4 \<Longrightarrow>
           fst (content (open_site_filters fs m a) (fresh s)) = Inr (snd ob4)"
    and "cache_snp_sites s = Some ob5 \<Longrightarrow>
           fst (content (open_snp_sites fs) (fresh s)) = Inr (snd ob5)"
    and "cache_snp_genotypes s k = Some ob6 \<Longrightarrow>
           fst (content (open_snp_genotypes fs k) (fresh s)) = Inr (snd ob6)"
    and "cache_genome s = Some ob7 \<Longrightarrow>
           fst (content (open_genome fs) (fresh s)) = Inr (snd ob7)"
  using assms unfolding coherent_def by blast+

lemma stable_sample_sets: "stable fs (content (sample_sets fs r))"
proof (rule stableI)
  fix s res s' assume c: "coherent fs s" and run: "content (sample_sets fs r) s = (res, s')"
  show "coherent fs s' \<and> extends s s' \<and> fst (content (sample_sets fs r) (fresh s)) = res"
  proof (cases "r \<in> set (releases s)")
    case False
    with run c show ?thesis
      by (auto simp: content_def sample_sets_def io_bind_def extends_refl)
  next
    case True
    show ?thesis
    proof (cases "cache_sample_sets s r")
      case (Some ob)
      have "fst (content (sample_sets fs r) (fresh s)) = Inr (snd ob)"
        by (rule coherentD(1)[OF c Some])
      with run c True Some show ?thesis
        by (auto simp: content_def sample_sets_def io_bind_def io_return_def extends_refl)
    next
      case None
      show ?thesis
      proof (cases "read_csv fs (path s @ ''/'' @ r @ ''/manifest.tsv'') (CHR 0x09)")
        case (Inl e)
        with run c True None show ?thesis
          by (auto simp: content_def sample_sets_def io_bind_def physical_def coherent_log
              extends_def)
      next
        case (Inr t)
        have f: "fst (content (sample_sets fs r) (fresh s)) =
                   Inr (assign_scalar ''release'' (Text r) (new_frame t))"
          using True Inr
          by (simp add: content_def sample_sets_def io_bind_def physical_def io_return_def Let_def)
        from run True None Inr have
          s': "s' = (s\<lparr>io_log := io_log s @ [path s @ ''/'' @ r @ ''/manifest.tsv'']\<rparr>)
                 \<lparr>cache_sample_sets := (cache_sample_sets s)(r \<mapsto>
                    (length (io_log s), assign_scalar ''release'' (Text r) (new_frame t)))\<rparr>"
          and res: "res = Inr (assign_scalar ''release'' (Text r) (new_frame t))"
          by (auto simp: content_def sample_sets_def io_bind_def physical_def io_return_def Let_def)
        have "coherent fs s'"
          unfolding s' using coherent_upd_sample_sets[of fs "s\<lparr>io_log := io_log s @ [path s @ ''/'' @ r @ ''/manifest.tsv'']\<rparr>" r] c f
          by (simp add: coherent_log)
        moreover have "extends s s'"
          unfolding s' using None by (auto simp add: extends_def map_le_def)
        ultimately show ?thesis using f res by simp
      qed
    qed
  qed
qed

lemma manifests_only_refl: "manifests_only s s"
  by (simp add: manifests_only_def)

lemma manifests_only_trans:
  "manifests_only s t \<Longrightarrow> manifests_only t u \<Longrightarrow> manifests_only s u"
  unfolding manifests_only_def by (metis ag3.update_convs(3,10) ag3.surjective ag3.select_convs)

lemma sample_sets_frame:
  "sample_sets fs r s = (x, s') \<Longrightarrow> manifests_only s s'"
  by (auto simp: sample_sets_def io_bind_def physical_def Let_def manifests_only_def
      split: if_splits option.splits sum.splits)

lemma lookup_loop_frame:
  "lookup_release_loop fs k rs s = (x, s') \<Longrightarrow> manifests_only s s'"
proof (induction rs arbitrary: s x)
  case Nil
  then show ?case by (simp add: manifests_only_refl)
next
  case (Cons r rs)
  obtain a s1 where ss: "sample_sets fs r s = (a, s1)" by (cases "sample_sets fs r s")
  note s1 = sample_sets_frame[OF ss]
  show ?case
  proof (cases "s' = s1")
    case True with s1 show ?thesis by blast
  next
    case False
    with Cons.prems ss have "\<exists>x. lookup_release_loop fs k rs s1 = (x, s')"
      by (auto simp: io_bind_def io_lift_def io_return_def split: sum.splits if_splits)
    then have "manifests_only s1 s'"
      using Cons.IH by blast
    with s1 show ?thesis by (rule manifests_only_trans)
  qed
qed

lemma lookup_release_frame:
  "lookup_release fs k s = (x, s') \<Longrightarrow> manifests_only s s'"
  unfolding lookup_release_def by (rule lookup_loop_frame)

lemma lookup_loop_unfold:
  "lookup_release_loop fs k (r # rest) =
     io_bind (sample_sets fs r) (\<lambda>ob.
       (\<lambda>df. io_bind (io_lift (getitem df ''sample_set'')) (\<lambda>col.
          if Text k \<in> set col then io_return r else lookup_release_loop fs k rest)) (snd ob))"
  by (rule ext) simp

lemma lookup_loop_Nil:
  "lookup_release_loop fs k [] = io_lift (Inl (ValueError (''No release found for sample set '' @ k)))"
  by (rule ext) (simp add: io_lift_def)

lemma stable_lookup_loop: "stable fs (lookup_release_loop fs k rs)"
proof (induction rs)
  case Nil show ?case unfolding lookup_loop_Nil by (rule stable_lift)
next
  case (Cons r rs)
  show ?case unfolding lookup_loop_unfold
    by (rule stable_bind_obj[OF stable_sample_sets])
       (intro stable_bind stable_lift, simp add: stable_return Cons.IH)
qed

lemma stable_lookup_release: "stable fs (lookup_release fs k)"
proof (rule stableI)
  fix s r s' assume c: "coherent fs s" and run: "lookup_release fs k s = (r, s')"
  from run have "lookup_release_loop fs k (releases s) s = (r, s')" by (simp add: lookup_release_def)
  from stableD[OF stable_lookup_loop c this]
  show "coherent fs s' \<and> extends s s' \<and> fst (lookup_release fs k (fresh s)) = r"
    by (simp add: lookup_release_def)
qed

lemma manifests_only_sel:
  assumes "manifests_only s t"
  shows "path t = path s" "releases t = releases s"
    "cache_general_metadata t = cache_general_metadata s"
    "cache_species_calls t = cache_species_calls s"
    "cache_site_filters t = cache_site_filters s"
    "cache_snp_sites t = cache_snp_sites s"
    "cache_snp_genotypes t = cache_snp_genotypes s"
    "cache_genome t = cache_genome s"
    "fresh t = fresh s"
proof -
  from assms have t: "t = s\<lparr>cache_sample_sets := cache_sample_sets t, io_log := io_log t\<rparr>"
    by (simp add: manifests_only_def)
  show "path t = path s" by (subst t) simp
  show "releases t = releases s" by (subst t) simp
  show "cache_general_metadata t = cache_general_metadata s" by (subst t) simp
  show "cache_species_calls t = cache_species_calls s" by (subst t) simp
  show "cache_site_filters t = cache_site_filters s" by (subst t) simp
  show "cache_snp_sites t = cache_snp_sites s" by (subst t) simp
  show "cache_snp_genotypes t = cache_snp_genotypes s" by (subst t) simp
  show "cache_genome t = cache_genome s" by (subst t) simp
  show "fresh t = fresh s" by (subst t) simp
qed

lemma map_le_iff: "m \<subseteq>\<^sub>m m' \<longleftrightarrow> (\<forall>k v. m k = Some v \<longrightarrow> m' k = Some v)"
  by (auto simp: map_le_def dom_def)

lemma extends_upd:
  "extends s t \<Longrightarrow> cache_general_metadata t k = None \<Longrightarrow>
     extends s (t\<lparr>io_log := io_log t @ l, cache_general_metadata := (cache_general_metadata t)(k \<mapsto> ob2)\<rparr>)"
  "extends s t \<Longrightarrow> cache_species_calls t k3 = None \<Longrightarrow>
     extends s (t\<lparr>io_log := io_log t @ l, cache_species_calls := (cache_species_calls t)(k3 \<mapsto> ob3)\<rparr>)"
  "extends s t \<Longrightarrow> cache_site_filters t k4 = None \<Longrightarrow>
     extends s (t\<lparr>io_log := io_log t @ l, cache_site_filters := (cache_site_filters t)(k4 \<mapsto> ob4)\<rparr>)"
  "extends s t \<Longrightarrow> cache_snp_sites t = None \<Longrightarrow>
     extends s (t\<lparr>io_log := io_log t @ l, cache_snp_sites := Some ob5\<rparr>)"
  "extends s t \<Longrightarrow> cache_snp_genotypes t k = None \<Longrightarrow>
     extends s (t\<lparr>io_log := io_log t @ l, cache_snp_genotypes := (cache_snp_genotypes t)(k \<mapsto> ob6)\<rparr>)"
  "extends s t \<Longrightarrow> cache_genome t = None \<Longrightarrow>
     extends s (t\<lparr>io_log := io_log t @ l, cache_genome := Some ob7\<rparr>)"
  "extends s t \<Longrightarrow> extends s (t\<lparr>io_log := io_log t @ l\<rparr>)"
  unfolding extends_def map_le_iff by auto

lemma extends_log: "extends s (s\<lparr>io_log := io_log s @ l\<rparr>)"
  by (simp add: extends_def)

lemma stable_read_general_metadata: "stable fs (content (read_general_metadata fs k))"
proof (rule stableI)
  fix s res s'
  assume c: "coherent fs s" and run: "content (read_general_metadata fs k) s = (res, s')"
  show "coherent fs s' \<and> extends s s' \<and> fst (content (read_general_metadata fs k) (fresh s)) = res"
  proof (cases "cache_general_metadata s k")
    case (Some ob)
    have "fst (content (read_general_metadata fs k) (fresh s)) = Inr (snd ob)"
      by (rule coherentD(2)[OF c Some])
    moreover have "content (read_general_metadata fs k) s = (Inr (snd ob), s)"
      using Some
      by (simp add: content_def read_general_metadata_def io_bind_def io_return_def)
    ultimately show ?thesis using run c by (simp add: extends_refl)
  next
    case None
    obtain r1 s1 where l: "lookup_release fs k s = (r1, s1)" by (cases "lookup_release fs k s")
    note d = stableD[OF stable_lookup_release c l]
    note mo = manifests_only_sel[OF lookup_release_frame[OF l]]
    obtain s1f where lf: "lookup_release fs k (fresh s) = (r1, s1f)"
      using d(3) by (cases "lookup_release fs k (fresh s)") auto
    note mf = manifests_only_sel[OF lookup_release_frame[OF lf]]
    show ?thesis
    proof (cases r1)
      case (Inl e)
      have "content (read_general_metadata fs k) s = (Inl e, s1)"
        using None l Inl
        by (simp add: content_def read_general_metadata_def io_bind_def)
      moreover have "fst (content (read_general_metadata fs k) (fresh s)) = Inl e"
        using lf Inl
        by (simp add: content_def read_general_metadata_def io_bind_def)
      ultimately show ?thesis using run d by simp
    next
      case (Inr rel)
      let ?p = "path s @ ''/'' @ rel @ ''/metadata/general/'' @ k @ ''/samples.meta.csv''"
      show ?thesis
      proof (cases "read_csv fs ?p (CHR '','')")
        case rd: (Inl e)
        have "content (read_general_metadata fs k) s = (Inl e, s1\<lparr>io_log := io_log s1 @ [?p]\<rparr>)"
          using None l Inr rd mo(1)
          by (simp add: content_def read_general_metadata_def io_bind_def physical_def)
        moreover have "fst (content (read_general_metadata fs k) (fresh s)) = Inl e"
          using lf Inr rd mf(1)
          by (simp add: content_def read_general_metadata_def io_bind_def physical_def)
        ultimately show ?thesis using run d by (auto simp: coherent_log intro: extends_upd)
      next
        case rd: (Inr t)
        let ?df = "assign_scalar ''release'' (Text rel)
                     (assign_scalar ''sample_set'' (Text k) (new_frame t))"
        let ?s' = "s1\<lparr>io_log := io_log s1 @ [?p],
                      cache_general_metadata := (cache_general_metadata s1)(k \<mapsto> (length (io_log s1), ?df))\<rparr>"
        have f: "fst (content (read_general_metadata fs k) (fresh s)) = Inr ?df"
          using lf Inr rd mf(1)
          by (simp add: content_def read_general_metadata_def io_bind_def physical_def io_return_def Let_def)
        have "content (read_general_metadata fs k) s = (Inr ?df, ?s')"
          using None l Inr rd mo(1)
          by (simp add: content_def read_general_metadata_def io_bind_def physical_def io_return_def Let_def)
        with run have s': "s' = ?s'" and res: "res = Inr ?df" by simp_all
        have "coherent fs s'"
          unfolding s'
          using coherent_upd_general_metadata[of fs "s1\<lparr>io_log := io_log s1 @ [?p]\<rparr>" k
              "(length (io_log s1), ?df)"] d(1) f mo(9)
          by (simp add: coherent_log)
        moreover have "extends s s'"
          unfolding s' using None mo(3) d(2) by (intro extends_upd) simp_all
        ultimately show ?thesis using f res by simp
      qed
    qed
  qed
qed

lemma stable_read_species_calls: "stable fs (content (read_species_calls fs k a m))"
proof (rule stableI)
  fix s res s'
  assume c: "coherent fs s" and run: "content (read_species_calls fs k a m) s = (res, s')"
  show "coherent fs s' \<and> extends s s' \<and> fst (content (read_species_calls fs k a m) (fresh s)) = res"
  proof (cases "cache_species_calls s (k, a, m)")
    case (Some ob)
    have "fst (content (read_species_calls fs k a m) (fresh s)) = Inr (snd ob)"
      by (rule coherentD(3)[OF c Some])
    moreover have "content (read_species_calls fs k a m) s = (Inr (snd ob), s)"
      using Some
      by (simp add: content_def read_species_calls_def io_bind_def io_return_def)
    ultimately show ?thesis using run c by (simp add: extends_refl)
  next
    case None
    obtain r1 s1 where l: "lookup_release fs k s = (r1, s1)" by (cases "lookup_release fs k s")
    note d = stableD[OF stable_lookup_release c l]
    note mo = manifests_only_sel[OF lookup_release_frame[OF l]]
    obtain s1f where lf: "lookup_release fs k (fresh s) = (r1, s1f)"
      using d(3) by (cases "lookup_release fs k (fresh s)") auto
    note mf = manifests_only_sel[OF lookup_release_frame[OF lf]]
    show ?thesis
    proof (cases r1)
      case (Inl e)
      have "content (read_species_calls fs k a m) s = (Inl e, s1)"
        using None l Inl
        by (simp add: content_def read_species_calls_def io_bind_def)
      moreover have "fst (content (read_species_calls fs k a m) (fresh s)) = Inl e"
        using lf Inl
        by (simp add: content_def read_species_calls_def io_bind_def)
      ultimately show ?thesis using run d by simp
    next
      case (Inr rel)
      let ?p = "path s @ ''/'' @ rel @ ''/metadata/species_calls_'' @ a @ ''/'' @ k @ ''/samples.species_'' @ m @ ''.csv''"
      show ?thesis
      proof (cases "read_csv fs ?p (CHR '','')")
        case rd: (Inl e)
        have "content (read_species_calls fs k a m) s = (Inl e, s1\<lparr>io_log := io_log s1 @ [?p]\<rparr>)"
          using None l Inr rd mo(1)
          by (simp add: content_def read_species_calls_def io_bind_def physical_def)
        moreover have "fst (content (read_species_calls fs k a m) (fresh s)) = Inl e"
          using lf Inr rd mf(1)
          by (simp add: content_def read_species_calls_def io_bind_def physical_def)
        ultimately show ?thesis using run d by (auto simp: coherent_log intro: extends_upd)
      next
        case rd: (Inr t)
        show ?thesis
        proof (cases "add_species (new_frame t)")
          case ad: (Inl e)
          have "content (read_species_calls fs k a m) s = (Inl e, s1\<lparr>io_log := io_log s1 @ [?p]\<rparr>)"
            using None l Inr rd ad mo(1)
            by (simp add: content_def read_species_calls_def io_bind_def physical_def io_lift_def)
          moreover have "fst (content (read_species_calls fs k a m) (fresh s)) = Inl e"
            using lf Inr rd ad mf(1)
            by (simp add: content_def read_species_calls_def io_bind_def physical_def io_lift_def)
          ultimately show ?thesis using run d by (auto simp: coherent_log intro: extends_upd)
        next
          case ad: (Inr df)
          let ?s' = "s1\<lparr>io_log := io_log s1 @ [?p],
                        cache_species_calls := (cache_species_calls s1)((k, a, m) \<mapsto> (length (io_log s1), df))\<rparr>"
          have f: "fst (content (read_species_calls fs k a m) (fresh s)) = Inr df"
            using lf Inr rd ad mf(1)
            by (simp add: content_def read_species_calls_def io_bind_def physical_def io_return_def io_lift_def)
          have "content (read_species_calls fs k a m) s = (Inr df, ?s')"
            using None l Inr rd ad mo(1)
            by (simp add: content_def read_species_calls_def io_bind_def physical_def io_return_def io_lift_def)
          with run have s': "s' = ?s'" and res: "res = Inr df" by simp_all
          have "coherent fs s'"
            unfolding s'
            using coherent_upd_species_calls[of fs "s1\<lparr>io_log := io_log s1 @ [?p]\<rparr>" k a m
                "(length (io_log s1), df)"] d(1) f mo(9)
            by (simp add: coherent_log)
          moreover have "extends s s'"
            unfolding s' using None mo(4) d(2) by (intro extends_upd) simp_all
          ultimately show ?thesis using f res by simp
        qed
      qed
    qed
  qed
qed

lemma stable_open_snp_genotypes: "stable fs (content (open_snp_genotypes fs k))"
proof (rule stableI)
  fix s res s'
  assume c: "coherent fs s" and run: "content (open_snp_genotypes fs k) s = (res, s')"
  show "coherent fs s' \<and> extends s s' \<and> fst (content (open_snp_genotypes fs k) (fresh s)) = res"
  proof (cases "cache_snp_genotypes s k")
    case (Some ob)
    have "fst (content (open_snp_genotypes fs k) (fresh s)) = Inr (snd ob)"
      by (rule coherentD(6)[OF c Some])
    moreover have "content (open_snp_genotypes fs k) s = (Inr (snd ob), s)"
      using Some
      by (simp add: content_def open_snp_genotypes_def io_bind_def io_return_def)
    ultimately show ?thesis using run c by (simp add: extends_refl)
  next
    case None
    obtain r1 s1 where l: "lookup_release fs k s = (r1, s1)" by (cases "lookup_release fs k s")
    note d = stableD[OF stable_lookup_release c l]
    note mo = manifests_only_sel[OF lookup_release_frame[OF l]]
    obtain s1f where lf: "lookup_release fs k (fresh s) = (r1, s1f)"
      using d(3) by (cases "lookup_release fs k (fresh s)") auto
    note mf = manifests_only_sel[OF lookup_release_frame[OF lf]]
    show ?thesis
    proof (cases r1)
      case (Inl e)
      have "content (open_snp_genotypes fs k) s = (Inl e, s1)"
        using None l Inl
        by (simp add: content_def open_snp_genotypes_def io_bind_def)
      moreover have "fst (content (open_snp_genotypes fs k) (fresh s)) = Inl e"
        using lf Inl
        by (simp add: content_def open_snp_genotypes_def io_bind_def)
      ultimately show ?thesis using run d by simp
    next
      case (Inr rel)
      let ?p = "path s @ ''/'' @ rel @ ''/snp_genotypes/all/'' @ k @ ''/''"
      show ?thesis
      proof (cases "open_genotypes_store fs ?p")
        case rd: (Inl e)
        have "content (open_snp_genotypes fs k) s = (Inl e, s1\<lparr>io_log := io_log s1 @ [?p]\<rparr>)"
          using None l Inr rd mo(1)
          by (simp add: content_def open_snp_genotypes_def io_bind_def physical_def)
        moreover have "fst (content (open_snp_genotypes fs k) (fresh s)) = Inl e"
          using lf Inr rd mf(1)
          by (simp add: content_def open_snp_genotypes_def io_bind_def physical_def)
        ultimately show ?thesis using run d by (auto simp: coherent_log intro: extends_upd)
      next
        case rd: (Inr t)
        let ?s' = "s1\<lparr>io_log := io_log s1 @ [?p],
                      cache_snp_genotypes := (cache_snp_genotypes s1)(k \<mapsto> (length (io_log s1), t))\<rparr>"
        have f: "fst (content (open_snp_genotypes fs k) (fresh s)) = Inr t"
          using lf Inr rd mf(1)
          by (simp add: content_def open_snp_genotypes_def io_bind_def physical_def io_return_def Let_def)
        have "content (open_snp_genotypes fs k) s = (Inr t, ?s')"
          using None l Inr rd mo(1)
          by (simp add: content_def open_snp_genotypes_def io_bind_def physical_def io_return_def Let_def)
        with run have s': "s' = ?s'" and res: "res = Inr t" by simp_all
        have "coherent fs s'"
          unfolding s'
          using coherent_upd_snp_genotypes[of fs "s1\<lparr>io_log := io_log s1 @ [?p]\<rparr>" k
              "(length (io_log s1), t)"] d(1) f mo(9)
          by (simp add: coherent_log)
        moreover have "extends s s'"
          unfolding s' using None mo(7) d(2) by (intro extends_upd) simp_all
        ultimately show ?thesis using f res by simp
      qed
    qed
  qed
qed

lemma stable_open_site_filters: "stable fs (content (open_site_filters fs m a))"
proof (rule stableI)
  fix s res s'
  assume c: "coherent fs s" and run: "content (open_site_filters fs m a) s = (res, s')"
  show "coherent fs s' \<and> extends s s' \<and> fst (content (open_site_filters fs m a) (fresh s)) = res"
  proof (cases "cache_site_filters s (m, a)")
    case (Some ob)
    have "fst (content (open_site_filters fs m a) (fresh s)) = Inr (snd ob)"
      by (rule coherentD(4)[OF c Some])
    moreover have "content (open_site_filters fs m a) s = (Inr (snd ob), s)"
      using Some
      by (simp add: content_def open_site_filters_def io_bind_def io_return_def)
    ultimately show ?thesis using run c by (simp add: extends_refl)
  next
    case None
    let ?p = "path s @ ''/v3/site_filters/'' @ a @ ''/'' @ m @ ''/''"
    show ?thesis
    proof (cases "open_filters_store fs ?p")
      case rd: (Inl e)
      have "content (open_site_filters fs m a) s = (Inl e, s\<lparr>io_log := io_log s @ [?p]\<rparr>)"
        using None rd
        by (simp add: content_def open_site_filters_def io_bind_def physical_def)
      moreover have "fst (content (open_site_filters fs m a) (fresh s)) = Inl e"
        using rd
        by (simp add: content_def open_site_filters_def io_bind_def physical_def)
      ultimately show ?thesis using run c by (auto simp: coherent_log extends_log)
    next
      case rd: (Inr t)
      let ?s' = "s\<lparr>io_log := io_log s @ [?p], cache_site_filters := (cache_site_filters s)((m, a) \<mapsto> (length (io_log s), t))\<rparr>"
      have f: "fst (content (open_site_filters fs m a) (fresh s)) = Inr t"
        using rd
        by (simp add: content_def open_site_filters_def io_bind_def physical_def io_return_def)
      have "content (open_site_filters fs m a) s = (Inr t, ?s')"
        using None rd
        by (simp add: content_def open_site_filters_def io_bind_def physical_def io_return_def)
      with run have s': "s' = ?s'" and res: "res = Inr t" by simp_all
      have "coherent fs s'"
        unfolding s'
        using coherent_upd_site_filters[of fs "s\<lparr>io_log := io_log s @ [?p]\<rparr>" m a
            "(length (io_log s), t)"] c f
        by (simp add: coherent_log)
      moreover have "extends s s'"
        unfolding s' using None by (intro extends_upd extends_refl) simp_all
      ultimately show ?thesis using f res by simp
    qed
  qed
qed

lemma stable_open_snp_sites: "stable fs (content (open_snp_sites fs))"
proof (rule stableI)
  fix s res s'
  assume c: "coherent fs s" and run: "content (open_snp_sites fs) s = (res, s')"
  show "coherent fs s' \<and> extends s s' \<and> fst (content (open_snp_sites fs) (fresh s)) = res"
  proof (cases "cache_snp_sites s")
    case (Some ob)
    have "fst (content (open_snp_sites fs) (fresh s)) = Inr (snd ob)"
      by (rule coherentD(5)[OF c Some])
    moreover have "content (open_snp_sites fs) s = (Inr (snd ob), s)"
      using Some
      by (simp add: content_def open_snp_sites_def io_bind_def io_return_def)
    ultimately show ?thesis using run c by (simp add: extends_refl)
  next
    case None
    let ?p = "path s @ ''/v3/snp_genotypes/all/sites/''"
    show ?thesis
    proof (cases "open_sites_store fs ?p")
      case rd: (Inl e)
      have "content (open_snp_sites fs) s = (Inl e, s\<lparr>io_log := io_log s @ [?p]\<rparr>)"
        using None rd
        by (simp add: content_def open_snp_sites_def io_bind_def physical_def)
      moreover have "fst (content (open_snp_sites fs) (fresh s)) = Inl e"
        using rd
        by (simp add: content_def open_snp_sites_def io_bind_def physical_def)
      ultimately show ?thesis using run c by (auto simp: coherent_log extends_log)
    next
      case rd: (Inr t)
      let ?s' = "s\<lparr>io_log := io_log s @ [?p], cache_snp_sites := Some (length (io_log s), t)\<rparr>"
      have f: "fst (content (open_snp_sites fs) (fresh s)) = Inr t"
        using rd
        by (simp add: content_def open_snp_sites_def io_bind_def physical_def io_return_def)
      have "content (open_snp_sites fs) s = (Inr t, ?s')"
        using None rd
        by (simp add: content_def open_snp_sites_def io_bind_def physical_def io_return_def)
      with run have s': "s' = ?s'" and res: "res = Inr t" by simp_all
      have "coherent fs s'"
        unfolding s'
        using coherent_upd_snp_sites[of fs "s\<lparr>io_log := io_log s @ [?p]\<rparr>" 
            "(length (io_log s), t)"] c f
        by (simp add: coherent_log)
      moreover have "extends s s'"
        unfolding s' using None by (intro extends_upd extends_refl) simp_all
      ultimately show ?thesis using f res by simp
    qed
  qed
qed

lemma stable_open_genome: "stable fs (content (open_genome fs))"
proof (rule stableI)
  fix s res s'
  assume c: "coherent fs s" and run: "content (open_genome fs) s = (res, s')"
  show "coherent fs s' \<and> extends s s' \<and> fst (content (open_genome fs) (fresh s)) = res"
  proof (cases "cache_genome s")
    case (Some ob)
    have "fst (content (open_genome fs) (fresh s)) = Inr (snd ob)"
      by (rule coherentD(7)[OF c Some])
    moreover have "content (open_genome fs) s = (Inr (snd ob), s)"
      using Some
      by (simp add: content_def open_genome_def io_bind_def io_return_def)
    ultimately show ?thesis using run c by (simp add: extends_refl)
  next
    case None
    let ?p = "path s @ ''/reference/genome/agamp4/Anopheles-gambiae-PEST_CHROMOSOMES_AgamP4.zarr''"
    show ?thesis
    proof (cases "open_genome_store fs ?p")
      case rd: (Inl e)
      have "content (open_genome fs) s = (Inl e, s\<lparr>io_log := io_log s @ [?p]\<rparr>)"
        using None rd
        by (simp add: content_def open_genome_def io_bind_def physical_def)
      moreover have "fst (content (open_genome fs) (fresh s)) = Inl e"
        using rd
        by (simp add: content_def open_genome_def io_bind_def physical_def)
      ultimately show ?thesis using run c by (auto simp: coherent_log extends_log)
    next
      case rd: (Inr t)
      let ?s' = "s\<lparr>io_log := io_log s @ [?p], cache_genome := Some (length (io_log s), t)\<rparr>"
      have f: "fst (content (open_genome fs) (fresh s)) = Inr t"
        using rd
        by (simp add: content_def open_genome_def io_bind_def physical_def io_return_def)
      have "content (open_genome fs) s = (Inr t, ?s')"
        using None rd
        by (simp add: content_def open_genome_def io_bind_def physical_def io_return_def)
      with run have s': "s' = ?s'" and res: "res = Inr t" by simp_all
      have "coherent fs s'"
        unfolding s'
        using coherent_upd_genome[of fs "s\<lparr>io_log := io_log s @ [?p]\<rparr>" 
            "(length (io_log s), t)"] c f
        by (simp add: coherent_log)
      moreover have "extends s s'"
        unfolding s' using None by (intro extends_upd extends_refl) simp_all
      ultimately show ?thesis using f res by simp
    qed
  qed
qed

lemma stable_bind_obj':
  assumes "stable fs (content m)" "\<And>ob. stable fs (f ob)" "\<And>i j x. f (i, x) = f (j, x)"
  shows "stable fs (io_bind m f)"
proof -
  have "io_bind m f = io_bind (content m) (\<lambda>x. f (0, x))"
  proof (rule ext)
    fix s
    show "io_bind m f s = io_bind (content m) (\<lambda>x. f (0, x)) s"
    proof (cases "m s")
      case (Pair r s1)
      then show ?thesis
        using assms(3)[of "fst (projr r)" "snd (projr r)" 0]
        by (cases r) (auto simp: content_def io_bind_def io_return_def)
    qed
  qed
  then show ?thesis using stable_bind[OF assms(1), of "\<lambda>x. f (0, x)"] assms(2) by simp
qed

lemma stable_if: "stable fs a \<Longrightarrow> stable fs b \<Longrightarrow> stable fs (if c then a else b)"
  by simp

lemma stable_case_option:
  "stable fs a \<Longrightarrow> (\<And>y. stable fs (b y)) \<Longrightarrow> stable fs (case x of None \<Rightarrow> a | Some y \<Rightarrow> b y)"
  by (cases x) simp_all

lemma stable_case_arg:
  "(\<And>y. stable fs (a y)) \<Longrightarrow> (\<And>ys. stable fs (b ys)) \<Longrightarrow> stable fs c \<Longrightarrow>
   stable fs (case x of Str y \<Rightarrow> a y | Seq ys \<Rightarrow> b ys | Other \<Rightarrow> c)"
  by (cases x) simp_all

lemma stable_case_prod:
  "(\<And>a b. stable fs (f a b)) \<Longrightarrow> stable fs (case x of (a, b) \<Rightarrow> f a b)"
  by (cases x) simp

lemmas stable_intros =
  stable_bind stable_return stable_lift stable_map_io stable_if stable_case_option
  stable_case_arg stable_case_prod

lemmas stable_obj_intros =
  stable_bind_obj'[OF stable_sample_sets] stable_bind_obj'[OF stable_read_general_metadata]
  stable_bind_obj'[OF stable_read_species_calls] stable_bind_obj'[OF stable_open_site_filters]
  stable_bind_obj'[OF stable_open_snp_sites] stable_bind_obj'[OF stable_open_snp_genotypes]
  stable_bind_obj'[OF stable_open_genome]

lemma stable_v3_wild: "stable fs (v3_wild fs)"
  unfolding v3_wild_def
  by (intro stable_obj_intros stable_intros) simp_all

lemma stable_prep_sample_sets_arg: "stable fs (prep_sample_sets_arg fs a)"
  unfolding prep_sample_sets_arg_def
  by (intro stable_obj_intros stable_intros stable_v3_wild) simp_all

lemma stable_species_calls: "stable fs (species_calls n fs a an me)"
proof (induction n arbitrary: a)
  case 0 show ?case by (simp add: stable_lift)
next
  case (Suc n)
  show ?case
    unfolding species_calls.simps
    by (intro stable_obj_intros stable_intros stable_prep_sample_sets_arg Suc.IH) simp_all
qed


lemma stable_site_filters: "stable fs (site_filters fs contig m field an)"
  unfolding site_filters_def
  by (intro stable_obj_intros stable_intros) simp_all

lemma stable_snp_sites_field: "stable fs (snp_sites_field fs contig field)"
  unfolding snp_sites_field_def
  by (intro stable_obj_intros stable_intros) simp_all

lemma stable_snp_sites: "stable fs (snp_sites fs contig field site_mask an)"
  unfolding snp_sites_def
  by (intro stable_intros stable_snp_sites_field stable_site_filters)

lemma stable_snp_genotypes: "stable fs (snp_genotypes n fs contig a field site_mask an)"
proof (induction n arbitrary: a site_mask an)
  case 0 show ?case by (simp add: stable_lift)
next
  case (Suc n)
  show ?case
    unfolding snp_genotypes.simps
    by (intro stable_obj_intros stable_intros stable_prep_sample_sets_arg Suc.IH
        stable_site_filters) simp_all
qed

lemma stable_genome_sequence: "stable fs (genome_sequence fs contig)"
  unfolding genome_sequence_def
  by (intro stable_obj_intros stable_intros) simp_all

lemma stable_is_accessible: "stable fs (is_accessible fs contig m an)"
  unfolding is_accessible_def Let_def
  by (intro stable_intros stable_genome_sequence stable_snp_sites stable_site_filters)

section \<open>The example store: lemmas\<close>

lemma example_init: "init example_fs ''data'' False = Inr example_ag3"
  by (simp add: init_def example_fs_def example_ag3_def then_do_def last_part_def startswith_def
      public_releases_def)

lemma example_fresh: "fresh example_ag3 = example_ag3"
  by (simp add: fresh_def example_ag3_def)

lemma example_pre_init: "init example_fs ''data'' True = Inr example_pre_ag3"
  by (simp add: init_def example_fs_def example_ag3_def example_pre_ag3_def then_do_def
      last_part_def startswith_def)

lemma example_coherent: "coherent example_fs example_ag3"
  using coherent_fresh[of example_fs example_ag3] by (simp add: example_fresh)

section \<open>Caches: what a call leaves behind\<close>

lemma io_bind_Inr:
  "io_bind m f s = (Inr y, s') \<longleftrightarrow> (\<exists>x s1. m s = (Inr x, s1) \<and> f x s1 = (Inr y, s'))"
  by (cases "m s") (auto simp: io_bind_def split: sum.splits)

lemma map_io_Inr:
  assumes "map_io f xs s = (Inr ys, s')" and "P s"
    and "\<And>x t y t'. P t \<Longrightarrow> f x t = (Inr y, t') \<Longrightarrow> P t' \<and> Q x y"
  shows "P s' \<and> list_all2 Q xs ys"
  using assms(1,2)
proof (induction xs arbitrary: s ys)
  case Nil then show ?case by simp
next
  case (Cons x xs)
  from Cons.prems(1) obtain y s1 zs where
    fx: "f x s = (Inr y, s1)" and rest: "map_io f xs s1 = (Inr zs, s')" and ys: "ys = y # zs"
    by (auto split: sum.splits prod.splits)
  from assms(3)[OF Cons.prems(2) fx] have "P s1" "Q x y" by simp_all
  with Cons.IH[OF rest] ys show ?case by simp
qed

lemma io_bind_Inr':
  "io_bind m f s = (Inr y, s') \<longleftrightarrow> (\<exists>x s1. m s = (Inr x, s1) \<and> f x s1 = (Inr y, s'))"
  by (cases "m s") (auto simp: io_bind_def split: sum.splits)

lemma sample_sets_hit:
  "r \<in> set (releases s) \<Longrightarrow> cache_sample_sets s r = Some ob \<Longrightarrow> sample_sets fs r s = (Inr ob, s)"
  by (simp add: sample_sets_def)

lemma sample_sets_cached:
  assumes "sample_sets fs r s = (Inr ob, s')"
  shows "r \<in> set (releases s') \<and> cache_sample_sets s' r = Some ob"
proof (cases "cache_sample_sets s r")
  case None
  with assms show ?thesis
    by (auto simp: sample_sets_def io_bind_Inr' physical_def Let_def split: if_splits sum.splits)
next
  case (Some a)
  with assms show ?thesis by (auto simp: sample_sets_def split: if_splits)
qed

lemma map_le_SomeD: "m \<subseteq>\<^sub>m m' \<Longrightarrow> m k = Some v \<Longrightarrow> m' k = Some v"
  by (metis domI map_le_def)

lemma extendsD:
  assumes "extends s t"
  shows "path t = path s" "releases t = releases s"
    "cache_sample_sets s k1 = Some ob1 \<Longrightarrow> cache_sample_sets t k1 = Some ob1"
    "cache_general_metadata s k2 = Some ob2 \<Longrightarrow> cache_general_metadata t k2 = Some ob2"
    "cache_species_calls s k3 = Some ob3 \<Longrightarrow> cache_species_calls t k3 = Some ob3"
    "cache_site_filters s k4 = Some ob4 \<Longrightarrow> cache_site_filters t k4 = Some ob4"
    "cache_snp_sites s = Some ob5 \<Longrightarrow> cache_snp_sites t = Some ob5"
    "cache_snp_genotypes s k6 = Some ob6 \<Longrightarrow> cache_snp_genotypes t k6 = Some ob6"
    "cache_genome s = Some ob7 \<Longrightarrow> cache_genome t = Some ob7"
proof -
  from assms show "path t = path s" "releases t = releases s"
    by (simp_all add: extends_def)
  from assms have
    "cache_sample_sets s \<subseteq>\<^sub>m cache_sample_sets t"
    "cache_general_metadata s \<subseteq>\<^sub>m cache_general_metadata t"
    "cache_species_calls s \<subseteq>\<^sub>m cache_species_calls t"
    "cache_site_filters s \<subseteq>\<^sub>m cache_site_filters t"
    "cache_snp_genotypes s \<subseteq>\<^sub>m cache_snp_genotypes t"
    by (simp_all add: extends_def)
  note le = this
  show
    "cache_sample_sets s k1 = Some ob1 \<Longrightarrow> cache_sample_sets t k1 = Some ob1"
    "cache_general_metadata s k2 = Some ob2 \<Longrightarrow> cache_general_metadata t k2 = Some ob2"
    "cache_species_calls s k3 = Some ob3 \<Longrightarrow> cache_species_calls t k3 = Some ob3"
    "cache_site_filters s k4 = Some ob4 \<Longrightarrow> cache_site_filters t k4 = Some ob4"
    "cache_snp_genotypes s k6 = Some ob6 \<Longrightarrow> cache_snp_genotypes t k6 = Some ob6"
    by (erule map_le_SomeD[OF le(1)], erule map_le_SomeD[OF le(2)], erule map_le_SomeD[OF le(3)],
        erule map_le_SomeD[OF le(4)], erule map_le_SomeD[OF le(5)])
  from assms show "cache_snp_sites s = Some ob5 \<Longrightarrow> cache_snp_sites t = Some ob5"
    "cache_genome s = Some ob7 \<Longrightarrow> cache_genome t = Some ob7"
    by (auto simp: extends_def)
qed

lemma sample_sets_again:
  assumes "sample_sets fs r s = (Inr ob, s1)" "extends s1 t"
  shows "sample_sets fs r t = (Inr ob, t)"
  using sample_sets_cached[OF assms(1)] extendsD(2,3)[OF assms(2)]
  by (simp add: sample_sets_hit)

lemma read_general_metadata_cached:
  assumes "read_general_metadata fs k s = (Inr ob, s')"
  shows "cache_general_metadata s' k = Some ob"
proof (cases "cache_general_metadata s k")
  case None
  with assms show ?thesis
    by (auto simp: read_general_metadata_def io_bind_Inr' Let_def)
next
  case (Some a)
  with assms show ?thesis by (simp add: read_general_metadata_def)
qed

lemma read_species_calls_cached:
  assumes "read_species_calls fs k a m s = (Inr ob, s')"
  shows "cache_species_calls s' (k, a, m) = Some ob"
proof (cases "cache_species_calls s (k, a, m)")
  case None
  with assms show ?thesis
    by (auto simp: read_species_calls_def io_bind_Inr')
next
  case (Some a)
  with assms show ?thesis by (simp add: read_species_calls_def)
qed

lemma open_site_filters_cached:
  assumes "open_site_filters fs m a s = (Inr ob, s')"
  shows "cache_site_filters s' (m, a) = Some ob"
proof (cases "cache_site_filters s (m, a)")
  case None
  with assms show ?thesis
    by (auto simp: open_site_filters_def io_bind_Inr')
next
  case (Some a)
  with assms show ?thesis by (simp add: open_site_filters_def)
qed

lemma open_snp_genotypes_cached:
  assumes "open_snp_genotypes fs k s = (Inr ob, s')"
  shows "cache_snp_genotypes s' k = Some ob"
proof (cases "cache_snp_genotypes s k")
  case None
  with assms show ?thesis
    by (auto simp: open_snp_genotypes_def io_bind_Inr')
next
  case (Some a)
  with assms show ?thesis by (simp add: open_snp_genotypes_def)
qed

lemma physical_token:
  assumes "physical p r s = (Inr ob, s1)" "extends s1 t" "physical p' r' t = (Inr ob', t')"
  shows "fst ob < fst ob'"
  using assms by (auto simp: physical_def extends_def split: sum.splits)

lemma run_Inr:
  assumes "case fst r of Inl e \<Rightarrow> False | Inr x \<Rightarrow> True"
  shows "r = (Inr (projr (fst r)), snd r)"
  using assms by (cases r; cases "fst r") auto

lemma sample_sets_extends: "sample_sets fs r s = (x, s') \<Longrightarrow> extends s s'"
proof (cases "cache_sample_sets s r")
  case None
  assume "sample_sets fs r s = (x, s')"
  with None show ?thesis
    by (auto simp: sample_sets_def io_bind_def physical_def Let_def extends_refl
        intro!: extends_log extends_trans[OF extends_log[of s "[p]" for p]]
        split: if_splits sum.splits)
      (auto simp: extends_def map_le_def)
next
  case (Some a)
  assume "sample_sets fs r s = (x, s')"
  with Some show ?thesis by (auto simp: sample_sets_def extends_refl split: if_splits)
qed

lemma lookup_loop_extends: "lookup_release_loop fs k rs s = (x, s') \<Longrightarrow> extends s s'"
proof (induction rs arbitrary: s)
  case Nil then show ?case by (simp add: extends_refl)
next
  case (Cons r rs)
  obtain a s1 where ss: "sample_sets fs r s = (a, s1)" by (cases "sample_sets fs r s")
  then have e1: "extends s s1" by (rule sample_sets_extends)
  show ?case
  proof (cases a)
    case (Inl e)
    with Cons.prems ss e1 show ?thesis by (simp add: io_bind_def)
  next
    case (Inr df)
    with Cons.prems ss e1 Cons.IH[of s1] show ?thesis
      by (auto simp: io_bind_def io_lift_def io_return_def split: sum.splits if_splits
          intro: extends_trans)
  qed
qed

lemma lookup_loop_again:
  "lookup_release_loop fs k rs s = (Inr rel, s1) \<Longrightarrow> extends s1 t \<Longrightarrow>
     lookup_release_loop fs k rs t = (Inr rel, t)"
proof (induction rs arbitrary: s)
  case Nil then show ?case by simp
next
  case (Cons r rs)
  from Cons.prems(1) obtain df sa col where
    ss: "sample_sets fs r s = (Inr df, sa)" and col: "getitem (snd df) ''sample_set'' = Inr col"
    and rest: "(if Text k \<in> set col then io_return r else lookup_release_loop fs k rs) sa
                 = (Inr rel, s1)"
    by (auto simp: io_bind_Inr' io_lift_def)
  have "extends sa s1"
    using rest by (auto simp: io_return_def extends_refl split: if_splits dest: lookup_loop_extends)
  then have "extends sa t" using Cons.prems(2) by (rule extends_trans)
  from sample_sets_again[OF ss this] have hit: "sample_sets fs r t = (Inr df, t)" .
  show ?case
  proof (cases "Text k \<in> set col")
    case True
    with rest hit col show ?thesis by (simp add: io_bind_def io_lift_def io_return_def)
  next
    case False
    with rest have "lookup_release_loop fs k rs sa = (Inr rel, s1)" by simp
    from Cons.IH[OF this Cons.prems(2)] hit col False show ?thesis
      by (simp add: io_bind_def io_lift_def)
  qed
qed

lemma lookup_release_again:
  assumes "lookup_release fs k s = (Inr rel, s1)" "extends s1 t"
  shows "lookup_release fs k t = (Inr rel, t)"
proof -
  have "extends s s1" using assms(1) unfolding lookup_release_def by (rule lookup_loop_extends)
  then have "releases t = releases s" using assms(2) by (simp add: extends_def)
  with lookup_loop_again[of fs k "releases s" s rel s1 t] assms show ?thesis
    by (simp add: lookup_release_def)
qed

lemma failed_sample_sets:
  assumes "release \<in> set (releases s)" "cache_sample_sets s release = None"
    "read_csv fs (path s @ ''/'' @ release @ ''/manifest.tsv'') (CHR 0x09) = Inl e"
  shows "sample_sets fs release s =
           (Inl e, s\<lparr>io_log := io_log s @ [path s @ ''/'' @ release @ ''/manifest.tsv'']\<rparr>)"
  using assms by (simp add: sample_sets_def io_bind_def physical_def)

lemma failed_read_general_metadata:
  assumes "cache_general_metadata s k = None" "lookup_release fs k s = (Inr rel, s1)"
    "read_csv fs (path s1 @ ''/'' @ rel @ ''/metadata/general/'' @ k @ ''/samples.meta.csv'')
       (CHR '','') = Inl e"
  shows "read_general_metadata fs k s =
           (Inl e, s1\<lparr>io_log := io_log s1 @
              [path s1 @ ''/'' @ rel @ ''/metadata/general/'' @ k @ ''/samples.meta.csv'']\<rparr>)"
  using assms by (simp add: read_general_metadata_def io_bind_def physical_def)

lemma failed_read_species_calls:
  assumes "cache_species_calls s (k, a, m) = None" "lookup_release fs k s = (Inr rel, s1)"
    "read_csv fs (path s1 @ ''/'' @ rel @ ''/metadata/species_calls_'' @ a @ ''/'' @ k
                    @ ''/samples.species_'' @ m @ ''.csv'') (CHR '','') = Inl e"
  shows "read_species_calls fs k a m s =
           (Inl e, s1\<lparr>io_log := io_log s1 @
              [path s1 @ ''/'' @ rel @ ''/metadata/species_calls_'' @ a @ ''/'' @ k
                 @ ''/samples.species_'' @ m @ ''.csv'']\<rparr>)"
  using assms by (simp add: read_species_calls_def io_bind_def physical_def)

lemma failed_open_site_filters:
  assumes "cache_site_filters s (m, a) = None"
    "open_filters_store fs (path s @ ''/v3/site_filters/'' @ a @ ''/'' @ m @ ''/'') = Inl e"
  shows "open_site_filters fs m a s =
           (Inl e, s\<lparr>io_log := io_log s @
              [path s @ ''/v3/site_filters/'' @ a @ ''/'' @ m @ ''/'']\<rparr>)"
  using assms by (simp add: open_site_filters_def io_bind_def physical_def)

lemma failed_open_snp_genotypes:
  assumes "cache_snp_genotypes s k = None" "lookup_release fs k s = (Inr rel, s1)"
    "open_genotypes_store fs (path s1 @ ''/'' @ rel @ ''/snp_genotypes/all/'' @ k @ ''/'') = Inl e"
  shows "open_snp_genotypes fs k s =
           (Inl e, s1\<lparr>io_log := io_log s1 @
              [path s1 @ ''/'' @ rel @ ''/snp_genotypes/all/'' @ k @ ''/'']\<rparr>)"
  using assms by (simp add: open_snp_genotypes_def io_bind_def physical_def)

lemma init_fresh: "init fs root pre = Inr s \<Longrightarrow> fresh s = s"
  by (auto simp: init_def then_do_def fresh_def Let_def split: sum.splits if_splits)

lemma init_coherent: "init fs root pre = Inr s \<Longrightarrow> coherent fs s"
  using coherent_fresh[of fs s] init_fresh[of fs root pre s] by simp

lemma stable_value:
  assumes "stable fs m" "coherent fs s"
  shows "fst (m s) = fst (m (fresh s))"
  using assms unfolding stable_def by blast

lemma length_compress_list:
  "length cond \<le> length xs \<Longrightarrow> length (compress_list cond xs) = count_true cond"
proof (induction cond arbitrary: xs)
  case Nil then show ?case by (simp add: compress_list_def count_true_def)
next
  case (Cons b cond)
  then obtain y ys where "xs = y # ys" by (cases xs) auto
  with Cons show ?case by (simp add: compress_list_def count_true_def)
qed

lemma compress_length: "compress cond xs = Inr ys \<Longrightarrow> length ys = count_true cond"
  by (auto simp: compress_def length_compress_list split: if_splits)

lemma compress_varray_length:
  "compress_varray cond a = Inr b \<Longrightarrow> varray_length b = count_true cond"
  by (cases a) (auto simp: compress_varray_def varray_length_def then_do_Inr compress_length)

lemma stable_later:
  assumes "stable fs m" "coherent fs s" "coherent fs t" "extends s t"
  shows "fst (m t) = fst (m s)"
  by (rule stable_agree[OF assms(1,2,3) extends_fresh[OF assms(4)]])

lemma snp_sites_unmasked:
  "snp_sites fs contig None None analysis =
     io_bind (snp_sites_field fs contig ''POS'') (\<lambda>pos.
     io_bind (snp_sites_field fs contig ''REF'') (\<lambda>ref.
     io_bind (snp_sites_field fs contig ''ALT'') (\<lambda>alt.
     io_return (Three pos ref alt))))"
  by (rule ext)
     (simp add: snp_sites_def io_bind_def io_return_def split: sum.splits prod.splits)

section \<open>Genotype arrays: lemmas\<close>

lemma map_io_mono:
  assumes "map_io f xs s = (Inr ys, s')"
    and "\<And>x t y t'. f x t = (Inr y, t') \<Longrightarrow> g x t = (Inr y, t')"
  shows "map_io g xs s = (Inr ys, s')"
  using assms(1)
proof (induction xs arbitrary: s ys)
  case Nil then show ?case by simp
next
  case (Cons x xs)
  from Cons.prems obtain y s1 zs where
    fx: "f x s = (Inr y, s1)" and rest: "map_io f xs s1 = (Inr zs, s')" and ys: "ys = y # zs"
    by (auto split: sum.splits prod.splits)
  from assms(2)[OF fx] Cons.IH[OF rest] ys show ?case by simp
qed

lemma snp_genotypes_mono:
  "snp_genotypes n fs contig sets field site_mask an s = (Inr d, s') \<Longrightarrow>
   snp_genotypes (Suc n) fs contig sets field site_mask an s = (Inr d, s')"
proof (induction n arbitrary: sets site_mask an s d s')
  case 0 then show ?case by (simp add: io_lift_def)
next
  case (Suc n)
  let ?inner = "\<lambda>k prepared.
       (case prepared of
          Str x \<Rightarrow>
            io_bind (open_snp_genotypes fs x) (\<lambda>root.
            io_lift (then_do (zget (snd root) contig) (\<lambda>g.
                     then_do (zget g ''calldata'') (\<lambda>v. zget v field))))
        | Seq cs \<Rightarrow>
            io_bind
              (map_io (\<lambda>c. snp_genotypes k fs contig c field None ''dt_20200416'') cs)
              (\<lambda>ds. io_lift (concatenate ds))
        | Other \<Rightarrow> io_lift (Inl (TypeError ''Invalid sample_sets'')))"
  have inner: "?inner (Suc n) prepared t = (Inr x, t')" if "?inner n prepared t = (Inr x, t')"
    for prepared t x t'
  proof (cases prepared)
    case (Seq cs)
    with that obtain ds where
      m: "map_io (\<lambda>c. snp_genotypes n fs contig c field None ''dt_20200416'') cs t = (Inr ds, t')"
      and c: "concatenate ds = Inr x"
      by (auto simp: io_bind_Inr io_lift_def)
    have "map_io (\<lambda>c. snp_genotypes (Suc n) fs contig c field None ''dt_20200416'') cs t
            = (Inr ds, t')"
      by (rule map_io_mono[OF m]) (rule Suc.IH)
    with c Seq show ?thesis by (simp add: io_bind_def io_lift_def)
  qed (use that in simp_all)
  from Suc.prems obtain prepared s1 x s2 where
    1: "prep_sample_sets_arg fs sets s = (Inr prepared, s1)" and
    2: "?inner n prepared s1 = (Inr x, s2)" and
    3: "(case site_mask of
            None \<Rightarrow> io_return x
          | Some mask_id \<Rightarrow>
              io_bind (site_filters fs contig mask_id ''filter_pass'' an)
                (\<lambda>filter_pass. io_lift (compress_garray filter_pass x))) s2 = (Inr d, s')"
    unfolding snp_genotypes.simps(2)[of n] by (auto simp: io_bind_Inr)
  from inner[OF 2] 1 3 show ?case
    unfolding snp_genotypes.simps(2)[of "Suc n"] io_bind_Inr by blast
qed

lemma prep_Seq: "prep_sample_sets_arg fs (Seq cs) s = (Inr (Seq cs), s)"
  by (simp add: prep_sample_sets_arg_def io_return_def)

lemma concatenate_Inr:
  assumes "concatenate ds = Inr d"
  shows "samples d = concat (map samples ds)"
    and "list_all (\<lambda>x. n_sites x = n_sites d \<and> trailing x = trailing d) ds"
    and "ds \<noteq> []"
  using assms by (auto simp: concatenate_def list_all_iff split: list.splits if_splits)

lemma snp_genotypes_list:
  assumes c: "coherent fs s"
    and p: "prep_sample_sets_arg fs sets s = (Inr (Seq cs), s0)"
    and run: "snp_genotypes (Suc depth) fs contig sets field None analysis s = (Inr d, s')"
  shows "\<exists>ds. list_all2 (\<lambda>c dc. fst (snp_genotypes (Suc depth) fs contig c field None
                                      ''dt_20200416'' s) = Inr dc) cs ds \<and>
              concatenate ds = Inr d"
proof -
  from run p obtain ds where
    m: "map_io (\<lambda>c. snp_genotypes depth fs contig c field None ''dt_20200416'') cs s0 = (Inr ds, s')"
    and cc: "concatenate ds = Inr d"
    by (auto simp: io_bind_Inr io_lift_def io_return_def)
  note d0 = stableD[OF stable_prep_sample_sets_arg c p]
  let ?P = "\<lambda>t. coherent fs t \<and> extends s t"
  have "?P s' \<and> list_all2 (\<lambda>c dc. fst (snp_genotypes (Suc depth) fs contig c field None
                                      ''dt_20200416'' s) = Inr dc) cs ds"
  proof (rule map_io_Inr[where P = ?P, OF m])
    show "?P s0" using d0 by simp
  next
    fix x t y t'
    assume t: "?P t" and r: "snp_genotypes depth fs contig x field None ''dt_20200416'' t = (Inr y, t')"
    note dt = stableD[OF stable_snp_genotypes _ r]
    have "fst (snp_genotypes depth fs contig x field None ''dt_20200416'' s) = Inr y"
      using stable_agree[OF stable_snp_genotypes c, of t depth contig x field None "''dt_20200416''"]
        t r extends_fresh[of s t] by simp
    then obtain t2 where "snp_genotypes depth fs contig x field None ''dt_20200416'' s = (Inr y, t2)"
      by (metis prod.collapse)
    from snp_genotypes_mono[OF this]
    show "?P t' \<and> fst (snp_genotypes (Suc depth) fs contig x field None ''dt_20200416'' s) = Inr y"
      using dt t by (auto intro: extends_trans)
  qed
  with cc show ?thesis by blast
qed

lemma fst_run: "fst (m s) = Inr x \<Longrightarrow> \<exists>t. m s = (Inr x, t)"
  by (metis prod.collapse)

lemma snp_genotypes_pair:
  assumes "coherent fs s"
    and "snp_genotypes depth fs contig (Seq [S1, S2]) field None analysis s = (Inr d, s')"
  shows "\<exists>d1 d2.
     fst (snp_genotypes depth fs contig S1 field None ''dt_20200416'' s) = Inr d1 \<and>
     fst (snp_genotypes depth fs contig S2 field None ''dt_20200416'' s) = Inr d2 \<and>
     length (samples d) = length (samples d1) + length (samples d2) \<and>
     d\<lparr>samples := take (length (samples d1)) (samples d)\<rparr> = d1 \<and>
     d\<lparr>samples := drop (length (samples d1)) (samples d)\<rparr> = d2"
proof (cases depth)
  case 0 with assms(2) show ?thesis by (simp add: io_lift_def)
next
  case (Suc n)
  from snp_genotypes_list[OF assms(1) prep_Seq assms(2)[unfolded Suc]]
  obtain d1 d2 where
    "fst (snp_genotypes depth fs contig S1 field None ''dt_20200416'' s) = Inr d1"
    "fst (snp_genotypes depth fs contig S2 field None ''dt_20200416'' s) = Inr d2"
    "concatenate [d1, d2] = Inr d"
    unfolding Suc by (auto simp: list_all2_Cons1)
  moreover from this(3) have "d = \<lparr>n_sites = n_sites d1, trailing = trailing d1,
      samples = samples d1 @ samples d2\<rparr>" "n_sites d2 = n_sites d1" "trailing d2 = trailing d1"
    by (auto simp: concatenate_def split: if_splits)
  ultimately show ?thesis by auto
qed

lemma concatenate_compress:
  assumes "concatenate ds = Inr whole" "compress_garray fp whole = Inr d"
  shows "\<exists>ms. list_all2 (\<lambda>dc mc. compress_garray fp dc = Inr mc) ds ms \<and> concatenate ms = Inr d"
proof -
  let ?c = "\<lambda>dc. dc\<lparr>n_sites := count_true fp, samples := map (compress_list fp) (samples dc)\<rparr>"
  from assms(1) obtain d0 rest where ds: "ds = d0 # rest"
    and al: "list_all (\<lambda>x. n_sites x = n_sites d0 \<and> trailing x = trailing d0) rest"
    and whole: "whole = \<lparr>n_sites = n_sites d0, trailing = trailing d0,
                          samples = concat (map samples ds)\<rparr>"
    by (auto simp: concatenate_def split: list.splits if_splits)
  from assms(2) whole have le: "length fp \<le> n_sites d0" and d: "d = ?c whole"
    by (auto simp: compress_garray_def split: if_splits)
  have each: "compress_garray fp dc = Inr (?c dc)" if "dc \<in> set ds" for dc
    using that al le by (auto simp: compress_garray_def ds list_all_iff)
  then have "list_all2 (\<lambda>dc mc. compress_garray fp dc = Inr mc) ds (map ?c ds)"
    by (simp add: list_all2_conv_all_nth)
  moreover have "concatenate (map ?c ds) = Inr d"
    using al by (simp add: concatenate_def ds d whole list_all_iff map_concat o_def)
  ultimately show ?thesis by blast
qed

lemma snp_genotypes_masked:
  "snp_genotypes k fs contig sets field (Some m) analysis =
     io_bind (snp_genotypes k fs contig sets field None ''dt_20200416'') (\<lambda>d.
     io_bind (site_filters fs contig m ''filter_pass'' analysis) (\<lambda>filter_pass.
     io_lift (compress_garray filter_pass d)))"
proof (cases k)
  case 0 then show ?thesis by (simp add: io_bind_def io_lift_def fun_eq_iff)
next
  case (Suc n)
  show ?thesis unfolding Suc
    by (rule ext) (simp add: io_bind_def io_return_def split: sum.splits prod.splits)
qed

section \<open>Sample metadata: lemmas\<close>






lemma first_seen_set [simp]: "set (first_seen xs) = set xs"
  by (simp add: first_seen_def)

lemma first_seen_distinct [simp]: "distinct (first_seen xs)"
  by (simp add: first_seen_def)











text \<open>Three small merges, as pandas 1.5 answers them.\<close>

lemma merge_key_dtypes_example:
  "merge ''sample_id''
     \<lparr>columns = [''sample_id''], index = [0], rows = [[(''sample_id'', Num 1)]]\<rparr>
     \<lparr>columns = [''sample_id''], index = [0], rows = [[(''sample_id'', Text ''a'')]]\<rparr>
   = Inl (ValueError ''You are trying to merge on int64 and object columns. If you wish to proceed you should use pd.concat'')"
  by code_simp

lemma merge_order_example:
  "map (\<lambda>j. (value_at j ''sample_id'', value_at j ''n'', value_at j ''m''))
     (case merge ''sample_id''
       \<lparr>columns = [''sample_id'', ''n''], index = [0, 1, 2],
        rows = [[(''sample_id'', Text ''a''), (''n'', Num 0)],
                [(''sample_id'', Text ''b''), (''n'', Num 1)],
                [(''sample_id'', Text ''a''), (''n'', Num 2)]]\<rparr>
       \<lparr>columns = [''sample_id'', ''m''], index = [0, 1],
        rows = [[(''sample_id'', Text ''b''), (''m'', Num 7)],
                [(''sample_id'', Text ''a''), (''m'', Num 8)]]\<rparr>
      of Inr df \<Rightarrow> rows df | Inl e \<Rightarrow> [])
   = [(Text ''a'', Num 0, Num 8), (Text ''a'', Num 2, Num 8), (Text ''b'', Num 1, Num 7)]"
  by code_simp

lemma merge_empty_left_example:
  "map_sum id columns (merge ''sample_id''
       \<lparr>columns = [''sample_id'', ''n''], index = [], rows = []\<rparr>
       \<lparr>columns = [''m'', ''sample_id''], index = [0],
        rows = [[(''m'', Num 7), (''sample_id'', Text ''b'')]]\<rparr>)
   = Inr [''n'', ''m'', ''sample_id'']"
  by code_simp

section \<open>Accessibility: lemmas\<close>

lemma scatter_Nil: "scatter a [] vs = a"
  by (simp add: scatter_def)

lemma length_fold_upd:
  "length (fold (\<lambda>(i, v) acc. acc[f i := v]) ivs a) = length a"
  by (induction ivs arbitrary: a) (auto split: prod.splits)

lemma length_scatter: "length (scatter a idx vs) = length a"
  by (simp add: scatter_def length_fold_upd)

lemma fold_upd_nth:
  assumes "distinct (map f idx)" "length vs = length idx" "\<forall>i\<in>set idx. f i < length a"
    "j < length a"
  shows "fold (\<lambda>(i, v) acc. acc[f i := v]) (zip idx vs) a ! j \<longleftrightarrow>
           (\<exists>k<length idx. f (idx ! k) = j \<and> vs ! k) \<or> (j \<notin> f ` set idx \<and> a ! j)"
  using assms
proof (induction idx arbitrary: vs a)
  case Nil then show ?case by simp
next
  case (Cons i idx)
  then obtain v vs' where vs: "vs = v # vs'" by (cases vs) auto
  have IH: "fold (\<lambda>(i, v) acc. acc[f i := v]) (zip idx vs') (a[f i := v]) ! j \<longleftrightarrow>
           (\<exists>k<length idx. f (idx ! k) = j \<and> vs' ! k) \<or> (j \<notin> f ` set idx \<and> (a[f i := v]) ! j)"
    using Cons.prems vs by (intro Cons.IH) auto
  show ?case
  proof (cases "j = f i")
    case True
    with Cons.prems(1) have notin: "j \<notin> f ` set idx" by auto
    then have "\<not> (\<exists>k<length idx. f (idx ! k) = j \<and> vs' ! k)"
      by (metis imageI nth_mem)
    with IH True notin Cons.prems(4) have "fold (\<lambda>(i, v) acc. acc[f i := v]) (zip idx vs')
        (a[f i := v]) ! j \<longleftrightarrow> v" by auto
    moreover have "(\<exists>k<length (i # idx). f ((i # idx) ! k) = j \<and> (v # vs') ! k) \<longleftrightarrow> v"
      using True notin
      by (auto simp: less_Suc_eq_0_disj) (metis imageI nth_mem)
    ultimately show ?thesis using vs True by simp
  next
    case False
    have "(\<exists>k<length (i # idx). f ((i # idx) ! k) = j \<and> (v # vs') ! k) \<longleftrightarrow>
          (\<exists>k<length idx. f (idx ! k) = j \<and> vs' ! k)"
      using False by (auto simp: less_Suc_eq_0_disj)
    with IH False vs show ?thesis by simp
  qed
qed

lemma count_true_card: "count_true xs = card {k. k < length xs \<and> xs ! k}"
  unfolding count_true_def by (simp add: length_filter_conv_card)

lemma fold_upd_count:
  assumes "distinct (map f idx)" "length vs = length idx" "\<forall>i\<in>set idx. f i < n"
  shows "count_true (fold (\<lambda>(i, v) acc. acc[f i := v]) (zip idx vs) (replicate n False)) =
           count_true vs"
proof -
  let ?acc = "fold (\<lambda>(i, v) acc. acc[f i := v]) (zip idx vs) (replicate n False)"
  let ?g = "\<lambda>k. f (idx ! k)"
  have len: "length ?acc = n" by (simp add: length_fold_upd)
  have nth: "?acc ! j \<longleftrightarrow> (\<exists>k<length idx. f (idx ! k) = j \<and> vs ! k)" if "j < n" for j
    using fold_upd_nth[OF assms(1,2), of "replicate n False" j] assms(3) that by auto
  have "{j. j < length ?acc \<and> ?acc ! j} = ?g ` {k. k < length vs \<and> vs ! k}"
  proof (intro set_eqI iffI)
    fix j assume "j \<in> {j. j < length ?acc \<and> ?acc ! j}"
    then show "j \<in> ?g ` {k. k < length vs \<and> vs ! k}"
      using nth len assms(2) by auto
  next
    fix j assume "j \<in> ?g ` {k. k < length vs \<and> vs ! k}"
    then obtain k where k: "k < length idx" "vs ! k" "j = f (idx ! k)"
      using assms(2) by auto
    then have "j < n" using assms(3) by auto
    with k nth len show "j \<in> {j. j < length ?acc \<and> ?acc ! j}" by auto
  qed
  moreover have "inj_on ?g {k. k < length vs \<and> vs ! k}"
  proof (rule inj_onI)
    fix x y assume "x \<in> {k. k < length vs \<and> vs ! k}" "y \<in> {k. k < length vs \<and> vs ! k}"
      "f (idx ! x) = f (idx ! y)"
    then show "x = y"
      using assms(1,2) by (auto simp: distinct_conv_nth)
  qed
  ultimately show ?thesis
    unfolding count_true_card by (simp add: card_image)
qed

lemma example_coherent_any: "coherent fs example_ag3"
  using coherent_fresh[of fs example_ag3] by (simp add: example_fresh)

lemma bind_value:
  assumes "stable fs m" "\<And>x. stable fs (f x)" "coherent fs s"
  shows "fst (io_bind m f s) = then_do (fst (m s)) (\<lambda>x. fst (f x s))"
proof -
  obtain r s1 where m: "m s = (r, s1)" by (cases "m s")
  note d = stableD[OF assms(1,3) m]
  show ?thesis
  proof (cases r)
    case (Inl e) with m show ?thesis by (simp add: io_bind_def then_do_def)
  next
    case (Inr x)
    have "fst (f x s1) = fst (f x s)"
      by (rule stable_later[OF assms(2) assms(3) d(1,2)])
    with Inr m show ?thesis by (simp add: io_bind_def then_do_def)
  qed
qed

lemma snp_sites_field_only:
  "fst (snp_sites fs contig (Some field) None analysis s) =
     then_do (fst (snp_sites_field fs contig field s)) (\<lambda>a. Inr (One a))"
  by (simp add: snp_sites_def io_bind_def io_return_def then_do_def split: prod.splits sum.splits)

lemma is_accessible_value:
  assumes "coherent fs s"
  shows "fst (is_accessible fs contig m analysis s) =
     then_do (fst (genome_sequence fs contig s)) (\<lambda>sequence.
     then_do (fst (snp_sites fs contig (Some ''POS'') None ''dt_20200416'' s)) (\<lambda>pos.
     then_do (fst (site_filters fs contig m ''filter_pass'' analysis s)) (\<lambda>filter_pass.
     then_do (positions pos) (\<lambda>ps.
       setitem (replicate (length sequence) False) (map minus_one ps) filter_pass))))"
  unfolding is_accessible_def Let_def
  by (simp add: bind_value[OF _ _ assms] stable_genome_sequence stable_snp_sites
      stable_site_filters stable_bind stable_lift io_lift_def)

lemma positions_Inr: "positions pos = Inr ps \<longleftrightarrow> pos = One (IntArray ps)"
  by (simp add: positions_def split: sites.splits varray.splits)

lemma setitem_length: "setitem a idx vals = Inr b \<Longrightarrow> length b = length a"
  by (auto simp: setitem_def then_do_Inr length_scatter split: if_splits)

lemma minus_one_pos: "1 \<le> p \<Longrightarrow> minus_one p = p - 1"
  by (simp add: minus_one_def)

lemma norm_index_pos:
  "1 \<le> p \<Longrightarrow> p \<le> int n \<Longrightarrow> norm_index n (minus_one p) = nat (p - 1) \<and> nat (p - 1) < n \<and>
     index_ok n (minus_one p)"
  by (auto simp: norm_index_def index_ok_def minus_one_pos)

lemma index_ok_minus_one:
  assumes "int n < 2147483648"
  shows "index_ok n (minus_one p) \<longleftrightarrow> 1 - int n \<le> p \<and> p \<le> int n"
  using assms by (auto simp: index_ok_def minus_one_def)

lemma setitem_Inr_iff:
  assumes "length vals = length idx \<or> length vals = 1"
  shows "(\<exists>b. setitem a idx vals = Inr b) \<longleftrightarrow> list_all (index_ok (length a)) idx"
  using assms by (auto simp: setitem_def broadcast_to_def then_do_def)

lemma setitem_IndexError:
  assumes "length vals = length idx \<or> length vals = 1" "\<not> list_all (index_ok (length a)) idx"
  shows "setitem a idx vals = Inl (IndexError ''index out of bounds for axis 0'')"
  using assms by (auto simp: setitem_def broadcast_to_def then_do_def)

lemma setitem_in_range:
  assumes "list_all (\<lambda>p. 1 \<le> p \<and> p \<le> int n) ps" "distinct ps" "length fp = length ps"
    and "setitem (replicate n False) (map minus_one ps) fp = Inr acc"
  shows "\<forall>j<length acc. acc ! j \<longleftrightarrow> (\<exists>i<length ps. ps ! i = int j + 1 \<and> fp ! i)"
    and "count_true acc = count_true fp"
proof -
  let ?f = "\<lambda>p. nat (p - 1)"
  have rng: "\<forall>p\<in>set ps. 1 \<le> p \<and> p \<le> int n" using assms(1) by (simp add: list_all_iff)
  have zip_eq: "zip (map minus_one ps) fp = map (\<lambda>(p, v). (minus_one p, v)) (zip ps fp)"
    by (simp add: zip_map1)
  have "scatter (replicate n False) (map minus_one ps) fp =
        fold (\<lambda>(p, v) acc. acc[?f p := v]) (zip ps fp) (replicate n False)"
    unfolding scatter_def zip_eq fold_map
    by (rule fold_cong) (auto simp: norm_index_pos dest!: set_zip_leftD rng[rule_format])
  moreover from assms(3,4) have "acc = scatter (replicate n False) (map minus_one ps) fp"
    by (auto simp: setitem_def broadcast_to_def then_do_def split: if_splits)
  ultimately have acc: "acc = fold (\<lambda>(p, v) acc. acc[?f p := v]) (zip ps fp) (replicate n False)"
    by simp
  have d: "distinct (map ?f ps)"
  proof -
    have "inj_on ?f (set ps)"
    proof (rule inj_onI)
      fix x y assume "x \<in> set ps" "y \<in> set ps" "?f x = ?f y"
      with rng have "1 \<le> x" "1 \<le> y" "nat (x - 1) = nat (y - 1)" by auto
      then show "x = y" by arith
    qed
    with assms(2) show ?thesis by (simp add: distinct_map)
  qed
  have b: "\<forall>p\<in>set ps. ?f p < n" using rng by auto
  show "count_true acc = count_true fp"
    unfolding acc by (rule fold_upd_count[OF d assms(3) b])
  have len: "length acc = n" unfolding acc by (simp add: length_fold_upd)
  show "\<forall>j<length acc. acc ! j \<longleftrightarrow> (\<exists>i<length ps. ps ! i = int j + 1 \<and> fp ! i)"
  proof (intro allI impI)
    fix j assume "j < length acc"
    then have j: "j < n" using len by simp
    have "acc ! j \<longleftrightarrow> (\<exists>k<length ps. ?f (ps ! k) = j \<and> fp ! k)"
      unfolding acc using fold_upd_nth[OF d assms(3), of "replicate n False" j] b j by auto
    also have "\<dots> \<longleftrightarrow> (\<exists>i<length ps. ps ! i = int j + 1 \<and> fp ! i)"
    proof -
      have "?f (ps ! k) = j \<longleftrightarrow> ps ! k = int j + 1" if "k < length ps" for k
      proof -
        from that rng have "1 \<le> ps ! k" by auto
        then show ?thesis by arith
      qed
      then show ?thesis by auto
    qed
    finally show "acc ! j \<longleftrightarrow> (\<exists>i<length ps. ps ! i = int j + 1 \<and> fp ! i)" .
  qed
qed

section \<open>Species calls: the derived column\<close>

lemma species_derived_add_species: "add_species df = Inr df' \<Longrightarrow> species_derived df'"
  by (simp add: species_derived_def add_species_rows list_all_iff value_at_update)

lemma read_species_calls_fresh:
  assumes "fst (content (read_species_calls fs k a m) (fresh s)) = Inr df"
  shows "species_derived df"
proof -
  obtain r s1 where run: "content (read_species_calls fs k a m) (fresh s) = (r, s1)"
    by (cases "content (read_species_calls fs k a m) (fresh s)")
  with assms have "content (read_species_calls fs k a m) (fresh s) = (Inr df, s1)" by simp
  then obtain t where "add_species (new_frame t) = Inr df"
    by (auto simp: content_def read_species_calls_def io_bind_Inr io_lift_def io_return_def)
  then show ?thesis by (rule species_derived_add_species)
qed

lemma read_species_calls_derived:
  assumes c: "coherent fs s" and run: "read_species_calls fs k a m s = (Inr ob, s')"
  shows "species_derived (snd ob)"
proof -
  from run have "content (read_species_calls fs k a m) s = (Inr (snd ob), s')"
    by (simp add: content_def io_bind_def io_return_def)
  from stableD(3)[OF stable_read_species_calls c this]
  show ?thesis by (rule read_species_calls_fresh)
qed

lemma species_derived_concat:
  assumes "concat_frames dfs = Inr df" "list_all species_derived dfs"
  shows "species_derived (reset_index df)"
  using assms
  by (auto simp: concat_frames_def reset_index_def species_derived_def list_all_iff
      split: if_splits)

lemma species_calls_derived_aux:
  "coherent fs s \<Longrightarrow> species_calls depth fs sets analysis method s = (Inr df, s') \<Longrightarrow>
     species_derived df"
proof (induction depth arbitrary: sets s df s')
  case 0 then show ?case by (simp add: io_lift_def)
next
  case (Suc depth)
  from Suc.prems(2) obtain prepared s1 where
    p: "prep_sample_sets_arg fs sets s = (Inr prepared, s1)" and
    rest: "(case prepared of
         Str x \<Rightarrow>
           io_bind (read_species_calls fs x analysis method) (\<lambda>df. io_return (snd df))
       | Seq cs \<Rightarrow>
           io_bind (map_io (\<lambda>c. species_calls depth fs c analysis method) cs) (\<lambda>dfs.
           io_bind (io_lift (concat_frames dfs)) (\<lambda>df. io_return (reset_index df)))
       | Other \<Rightarrow> io_lift (Inl (TypeError ''Invalid sample_sets''))) s1 = (Inr df, s')"
    by (auto simp: io_bind_Inr)
  have c1: "coherent fs s1"
    by (rule stableD(1)[OF stable_prep_sample_sets_arg Suc.prems(1) p])
  show ?case
  proof (cases prepared)
    case (Str x)
    with rest obtain ob where "read_species_calls fs x analysis method s1 = (Inr ob, s')" "df = snd ob"
      by (auto simp: io_bind_Inr io_return_def)
    with read_species_calls_derived[OF c1] show ?thesis by simp
  next
    case (Seq cs)
    with rest obtain dfs s2 d where
      m: "map_io (\<lambda>c. species_calls depth fs c analysis method) cs s1 = (Inr dfs, s2)"
      and cc: "concat_frames dfs = Inr d" and df: "df = reset_index d"
      by (auto simp: io_bind_Inr io_return_def io_lift_def)
    have "coherent fs s2 \<and> list_all2 (\<lambda>c y. species_derived y) cs dfs"
    proof (rule map_io_Inr[where P = "coherent fs" and Q = "\<lambda>c y. species_derived y", OF m c1])
      fix x t y t'
      assume "coherent fs t" "species_calls depth fs x analysis method t = (Inr y, t')"
      then show "coherent fs t' \<and> species_derived y"
        using Suc.IH stableD(1)[OF stable_species_calls] by blast
    qed
    then have "list_all species_derived dfs"
      by (auto simp: list_all2_conv_all_nth list_all_length)
    with cc df show ?thesis by (simp add: species_derived_concat)
  next
    case Other
    with rest show ?thesis by (simp add: io_lift_def)
  qed
qed

text \<open>
  Claim C3. In every table that \<^verbatim>\<open>species_calls\<close> returns, on an instance whose caches
  hold what the storage holds, the value of \<open>species\<close> in each row is the one the rule of
  the specification gives for the two raw columns of that row: \<open>arabiensis\<close> whatever the
  second column, \<open>intermediate_arabiensis_gambiae\<close> for \<open>intermediate\<close>, and for \<open>gamb_colu\<close>
  the value \<open>gambiae\<close>, \<open>coluzzii\<close> or \<open>intermediate_gambiae_coluzzii\<close> by the second column,
  and missing otherwise.
\<close>

theorem species_calls_derived:
  assumes "coherent fs s"
    and "species_calls depth fs sets analysis method s = (Inr df, s')"
  shows "list_all (\<lambda>r. value_at r ''species'' =
                     species_rule (value_at r ''species_gambcolu_arabiensis'')
                                  (value_at r ''species_gambiae_coluzzii'')) (rows df)"
  using species_calls_derived_aux[OF assms] by (simp add: species_derived_def)

theorem species_calls_derived_witness:
  "coherent example_fs example_ag3 \<and>
   (\<exists>df s'. species_calls 2 example_fs (Str ''v3'') ''20200422'' ''aim'' example_ag3 = (Inr df, s')
      \<and> length (rows df) = 3
      \<and> list_all (\<lambda>r. value_at r ''species'' =
                     species_rule (value_at r ''species_gambcolu_arabiensis'')
                                  (value_at r ''species_gambiae_coluzzii'')) (rows df))"
proof -
  let ?run = "species_calls 2 example_fs (Str ''v3'') ''20200422'' ''aim'' example_ag3"
  have "case fst ?run of Inl e \<Rightarrow> False | Inr df \<Rightarrow> length (rows df) = 3"
    by code_simp
  then obtain df where df: "fst ?run = Inr df" "length (rows df) = 3"
    by (cases "fst ?run") auto
  then have run: "?run = (Inr df, snd ?run)"
    by (metis prod.collapse)
  from species_calls_derived[OF example_coherent run] df(2) run example_coherent
  show ?thesis by blast
qed

section \<open>Genotypes across sample sets\<close>

text \<open>
  Claim C1. On an instance whose caches hold what the storage holds, the array that
  \<^verbatim>\<open>snp_genotypes\<close> returns for the list of two sample-set identifiers \<open>S1\<close>, \<open>S2\<close> has as
  many entries along the sample axis as the arrays for \<open>S1\<close> and for \<open>S2\<close> together, its
  first block along that axis is the array for \<open>S1\<close> exactly and the rest is the array for
  \<open>S2\<close>. In general, for an argument that resolves to the list \<open>cs\<close>, the samples of the
  result are the samples of the arrays for the elements of \<open>cs\<close>, one array after the other
  in the order of \<open>cs\<close>: nothing is reordered and nothing is dropped.
\<close>

theorem snp_genotypes_concatenates:
  assumes "coherent fs s"
  shows
    "(snp_genotypes depth fs contig (Seq [S1, S2]) field None analysis s = (Inr d, s') \<longrightarrow>
        (\<exists>d1 d2.
           fst (snp_genotypes depth fs contig S1 field None ''dt_20200416'' s) = Inr d1 \<and>
           fst (snp_genotypes depth fs contig S2 field None ''dt_20200416'' s) = Inr d2 \<and>
           length (samples d) = length (samples d1) + length (samples d2) \<and>
           d\<lparr>samples := take (length (samples d1)) (samples d)\<rparr> = d1 \<and>
           d\<lparr>samples := drop (length (samples d1)) (samples d)\<rparr> = d2)) \<and>
     (prep_sample_sets_arg fs sets s = (Inr (Seq cs), s0) \<and>
      snp_genotypes depth fs contig sets field None analysis s = (Inr d, s') \<longrightarrow>
        (\<exists>ds. list_all2 (\<lambda>c dc. fst (snp_genotypes depth fs contig c field None
                                        ''dt_20200416'' s) = Inr dc) cs ds \<and>
              samples d = concat (map samples ds)))"
proof (intro conjI impI)
  assume "snp_genotypes depth fs contig (Seq [S1, S2]) field None analysis s = (Inr d, s')"
  from snp_genotypes_pair[OF assms this]
  show "\<exists>d1 d2.
           fst (snp_genotypes depth fs contig S1 field None ''dt_20200416'' s) = Inr d1 \<and>
           fst (snp_genotypes depth fs contig S2 field None ''dt_20200416'' s) = Inr d2 \<and>
           length (samples d) = length (samples d1) + length (samples d2) \<and>
           d\<lparr>samples := take (length (samples d1)) (samples d)\<rparr> = d1 \<and>
           d\<lparr>samples := drop (length (samples d1)) (samples d)\<rparr> = d2" .
next
  assume a: "prep_sample_sets_arg fs sets s = (Inr (Seq cs), s0) \<and>
      snp_genotypes depth fs contig sets field None analysis s = (Inr d, s')"
  show "\<exists>ds. list_all2 (\<lambda>c dc. fst (snp_genotypes depth fs contig c field None
                                        ''dt_20200416'' s) = Inr dc) cs ds \<and>
              samples d = concat (map samples ds)"
  proof (cases depth)
    case 0 with a show ?thesis by (simp add: io_lift_def)
  next
    case (Suc n)
    from a snp_genotypes_list[OF assms, of sets cs s0 n contig field analysis d s']
    show ?thesis unfolding Suc by (auto dest: concatenate_Inr(1))
  qed
qed

theorem snp_genotypes_concatenates_witness:
  "coherent example_fs example_ag3 \<and>
   fst (snp_genotypes 2 example_fs ''3R'' (Seq [Str ''A'', Str ''B'']) ''GT'' None ''dt_20200416''
          example_ag3) =
     Inr \<lparr>n_sites = 3, trailing = [2],
          samples = [[[0, 0], [0, 1], [1, 1]], [[0, 1], [0, 0], [0, 0]],
                     [[1, 1], [1, 1], [0, 1]]]\<rparr> \<and>
   fst (snp_genotypes 2 example_fs ''3R'' (Str ''A'') ''GT'' None ''dt_20200416'' example_ag3) =
     Inr \<lparr>n_sites = 3, trailing = [2],
          samples = [[[0, 0], [0, 1], [1, 1]], [[0, 1], [0, 0], [0, 0]]]\<rparr> \<and>
   fst (prep_sample_sets_arg example_fs (Str ''v3'') example_ag3) =
     Inr (Seq [Str ''A'', Str ''B'']) \<and>
   (\<exists>d ds. fst (snp_genotypes 2 example_fs ''3R'' (Str ''v3'') ''GT'' None ''dt_20200416''
                 example_ag3) = Inr d \<and>
      list_all2 (\<lambda>c dc. fst (snp_genotypes 2 example_fs ''3R'' c ''GT'' None ''dt_20200416''
                               example_ag3) = Inr dc) [Str ''A'', Str ''B''] ds \<and>
      samples d = concat (map samples ds) \<and> length (samples d) = 3)"
proof -
  let ?D = "\<lparr>n_sites = 3, trailing = [2],
          samples = [[[0, 0], [0, 1], [1, 1]], [[0, 1], [0, 0], [0, 0]],
                     [[1, 1], [1, 1], [0::int, 1]]]\<rparr>"
  let ?r = "snp_genotypes 2 example_fs ''3R'' (Seq [Str ''A'', Str ''B'']) ''GT'' None
              ''dt_20200416'' example_ag3"
  let ?v = "snp_genotypes 2 example_fs ''3R'' (Str ''v3'') ''GT'' None ''dt_20200416'' example_ag3"
  let ?p = "prep_sample_sets_arg example_fs (Str ''v3'') example_ag3"
  have r: "fst ?r = Inr ?D" by code_simp
  then have run: "?r = (Inr ?D, snd ?r)" by (metis prod.collapse)
  have v: "fst ?v = Inr ?D" by code_simp
  then have runv: "?v = (Inr ?D, snd ?v)" by (metis prod.collapse)
  have p: "fst ?p = Inr (Seq [Str ''A'', Str ''B''])" by code_simp
  then have prep: "?p = (Inr (Seq [Str ''A'', Str ''B'']), snd ?p)" by (metis prod.collapse)
  note t = snp_genotypes_concatenates[OF example_coherent]
  from t[THEN conjunct1, THEN mp, OF run] obtain d1 d2 where
    "fst (snp_genotypes 2 example_fs ''3R'' (Str ''A'') ''GT'' None ''dt_20200416'' example_ag3)
       = Inr d1"
    "?D\<lparr>samples := take (length (samples d1)) (samples ?D)\<rparr> = d1"
    "?D\<lparr>samples := drop (length (samples d1)) (samples ?D)\<rparr> = d2"
    "length (samples ?D) = length (samples d1) + length (samples d2)"
    by blast
  moreover have "case fst (snp_genotypes 2 example_fs ''3R'' (Str ''A'') ''GT'' None
      ''dt_20200416'' example_ag3) of Inl e \<Rightarrow> False | Inr x \<Rightarrow> length (samples x) = 2"
    by code_simp
  ultimately have a: "fst (snp_genotypes 2 example_fs ''3R'' (Str ''A'') ''GT'' None
      ''dt_20200416'' example_ag3) =
     Inr \<lparr>n_sites = 3, trailing = [2],
          samples = [[[0, 0], [0, 1], [1, 1]], [[0, 1], [0, 0], [0, 0]]]\<rparr>"
    by auto
  from t[THEN conjunct2, THEN mp, OF conjI[OF prep runv]] obtain ds where
    ds: "list_all2 (\<lambda>c dc. fst (snp_genotypes 2 example_fs ''3R'' c ''GT'' None ''dt_20200416''
                               example_ag3) = Inr dc) [Str ''A'', Str ''B''] ds"
    "samples ?D = concat (map samples ds)"
    by blast
  have len: "length (samples ?D) = 3" by simp
  from v ds len have "\<exists>d ds. fst ?v = Inr d \<and>
      list_all2 (\<lambda>c dc. fst (snp_genotypes 2 example_fs ''3R'' c ''GT'' None ''dt_20200416''
                               example_ag3) = Inr dc) [Str ''A'', Str ''B''] ds \<and>
      samples d = concat (map samples ds) \<and> length (samples d) = 3"
    by blast
  with r a p example_coherent show ?thesis by blast
qed

section \<open>Sample metadata\<close>



section \<open>The accessibility map\<close>

text \<open>
  Claim C4, amended. On an instance whose caches hold what the storage holds, whenever
  \<^verbatim>\<open>is_accessible(contig, mask)\<close> returns a vector \<open>acc\<close>: the genome sequence of the
  contig, the positions \<open>ps\<close> (\<^verbatim>\<open>snp_sites(contig, field="POS")\<close>) and the filter values
  (\<^verbatim>\<open>site_filters(contig, mask)\<close>) were read; \<open>acc\<close> is as long as the sequence; and \<open>acc\<close>
  is the all-false vector of that length after the one assignment of the filter
  values at the indices \<open>pos - 1\<close>. If moreover every position lies between 1 and the
  length of the sequence, no position occurs twice, and there is one filter value per
  position, then entry \<open>j\<close> is true exactly when position \<open>j + 1\<close> is in the site list
  with a true filter value (so a position that the site list lacks stays false), and
  \<open>acc\<close> has as many true entries as the filter has. Without these three conditions
  the count can differ.
\<close>

theorem is_accessible_scatter:
  assumes "coherent fs s"
    and "is_accessible fs contig m analysis s = (Inr acc, s')"
  shows "\<exists>sequence ps filter_pass.
     fst (genome_sequence fs contig s) = Inr sequence \<and>
     fst (snp_sites fs contig (Some ''POS'') None ''dt_20200416'' s) = Inr (One (IntArray ps)) \<and>
     fst (site_filters fs contig m ''filter_pass'' analysis s) = Inr filter_pass \<and>
     length acc = length sequence \<and>
     setitem (replicate (length sequence) False) (map minus_one ps) filter_pass = Inr acc \<and>
     (list_all (\<lambda>p. 1 \<le> p \<and> p \<le> int (length sequence)) ps \<and> distinct ps \<and>
      length filter_pass = length ps \<longrightarrow>
        (\<forall>j<length acc. acc ! j \<longleftrightarrow> (\<exists>i<length ps. ps ! i = int j + 1 \<and> filter_pass ! i)) \<and>
        count_true acc = count_true filter_pass)"
proof -
  from assms(2) have "fst (is_accessible fs contig m analysis s) = Inr acc" by simp
  then obtain sequence pos filter_pass ps where
    g: "fst (genome_sequence fs contig s) = Inr sequence"
    and p: "fst (snp_sites fs contig (Some ''POS'') None ''dt_20200416'' s) = Inr pos"
    and f: "fst (site_filters fs contig m ''filter_pass'' analysis s) = Inr filter_pass"
    and ps: "positions pos = Inr ps"
    and set: "setitem (replicate (length sequence) False) (map minus_one ps) filter_pass = Inr acc"
    unfolding is_accessible_value[OF assms(1)] then_do_Inr by blast
  from ps have pos: "pos = One (IntArray ps)" by (simp add: positions_Inr)
  have len: "length acc = length sequence" using setitem_length[OF set] by simp
  have rng: "(\<forall>j<length acc. acc ! j \<longleftrightarrow> (\<exists>i<length ps. ps ! i = int j + 1 \<and> filter_pass ! i)) \<and>
        count_true acc = count_true filter_pass"
    if "list_all (\<lambda>p. 1 \<le> p \<and> p \<le> int (length sequence)) ps \<and> distinct ps \<and>
        length filter_pass = length ps"
    using setitem_in_range[OF _ _ _ set] that by blast
  show ?thesis
    apply (rule exI[of _ sequence], rule exI[of _ ps], rule exI[of _ filter_pass])
    using g p f len set rng pos by blast
qed

theorem is_accessible_scatter_witness:
  "coherent example_fs example_ag3 \<and>
   fst (is_accessible example_fs ''3R'' ''gamb_colu'' ''dt_20200416'' example_ag3)
     = Inr [True, False, False, True, False] \<and>
   (\<exists>sequence ps filter_pass.
     fst (genome_sequence example_fs ''3R'' example_ag3) = Inr sequence \<and>
     fst (snp_sites example_fs ''3R'' (Some ''POS'') None ''dt_20200416'' example_ag3)
       = Inr (One (IntArray ps)) \<and>
     fst (site_filters example_fs ''3R'' ''gamb_colu'' ''filter_pass'' ''dt_20200416'' example_ag3)
       = Inr filter_pass \<and>
     sequence = ''ACGTA'' \<and> ps = [1, 3, 4] \<and> filter_pass = [True, False, True] \<and>
     length [True, False, False, True, False] = length sequence \<and>
     list_all (\<lambda>p. 1 \<le> p \<and> p \<le> int (length sequence)) ps \<and> distinct ps \<and>
     length filter_pass = length ps \<and>
     count_true [True, False, False, True, False] = count_true filter_pass)"
proof -
  let ?run = "is_accessible example_fs ''3R'' ''gamb_colu'' ''dt_20200416'' example_ag3"
  have v: "fst ?run = Inr [True, False, False, True, False]" by code_simp
  then have run: "?run = (Inr [True, False, False, True, False], snd ?run)"
    by (metis prod.collapse)
  have gv: "fst (genome_sequence example_fs ''3R'' example_ag3) = Inr ''ACGTA''" by code_simp
  have pv: "fst (snp_sites example_fs ''3R'' (Some ''POS'') None ''dt_20200416'' example_ag3)
       = Inr (One (IntArray [1, 3, 4]))" by code_simp
  have fv: "fst (site_filters example_fs ''3R'' ''gamb_colu'' ''filter_pass'' ''dt_20200416''
       example_ag3) = Inr [True, False, True]" by code_simp
  from is_accessible_scatter[OF example_coherent run]
  obtain sequence ps filter_pass where
    g: "fst (genome_sequence example_fs ''3R'' example_ag3) = Inr sequence"
    and p: "fst (snp_sites example_fs ''3R'' (Some ''POS'') None ''dt_20200416'' example_ag3)
       = Inr (One (IntArray ps))"
    and f: "fst (site_filters example_fs ''3R'' ''gamb_colu'' ''filter_pass'' ''dt_20200416''
       example_ag3) = Inr filter_pass"
    and len: "length [True, False, False, True, False] = length sequence"
    and imp: "list_all (\<lambda>p. 1 \<le> p \<and> p \<le> int (length sequence)) ps \<and> distinct ps \<and>
      length filter_pass = length ps \<longrightarrow>
        (\<forall>j<length [True, False, False, True, False].
            [True, False, False, True, False] ! j \<longleftrightarrow>
            (\<exists>i<length ps. ps ! i = int j + 1 \<and> filter_pass ! i)) \<and>
        count_true [True, False, False, True, False] = count_true filter_pass"
    by blast
  from g gv have sq: "sequence = ''ACGTA''" by simp
  from p pv have psv: "ps = [1, 3, 4]" by simp
  from f fv have fpv: "filter_pass = [True, False, True]" by simp
  have hyp: "list_all (\<lambda>p. 1 \<le> p \<and> p \<le> int (length sequence)) ps \<and> distinct ps \<and>
      length filter_pass = length ps"
    by (simp add: sq psv fpv)
  from imp[THEN mp, OF hyp]
  have cnt: "count_true [True, False, False, True, False] = count_true filter_pass" by (elim conjE)
  have "\<exists>sequence ps filter_pass.
     fst (genome_sequence example_fs ''3R'' example_ag3) = Inr sequence \<and>
     fst (snp_sites example_fs ''3R'' (Some ''POS'') None ''dt_20200416'' example_ag3)
       = Inr (One (IntArray ps)) \<and>
     fst (site_filters example_fs ''3R'' ''gamb_colu'' ''filter_pass'' ''dt_20200416'' example_ag3)
       = Inr filter_pass \<and>
     sequence = ''ACGTA'' \<and> ps = [1, 3, 4] \<and> filter_pass = [True, False, True] \<and>
     length [True, False, False, True, False] = length sequence \<and>
     list_all (\<lambda>p. 1 \<le> p \<and> p \<le> int (length sequence)) ps \<and> distinct ps \<and>
     length filter_pass = length ps \<and>
     count_true [True, False, False, True, False] = count_true filter_pass"
    by (rule exI[of _ sequence], rule exI[of _ ps], rule exI[of _ filter_pass])
       (intro conjI g p f sq psv fpv len hyp[THEN conjunct1] hyp[THEN conjunct2, THEN conjunct1]
          hyp[THEN conjunct2, THEN conjunct2] cnt)
  with example_coherent v show ?thesis by blast
qed

text \<open>
  The claim as stated fails on a store whose site list names position 1 twice, with
  the filter values true and false: the second write to index 0 wins, and the vector
  has one true entry where the filter has two.
\<close>

theorem is_accessible_scatter_counterexample:
  "coherent (sites_fs [1, 1, 4]) example_ag3 \<and>
   fst (snp_sites (sites_fs [1, 1, 4]) ''3R'' (Some ''POS'') None ''dt_20200416'' example_ag3)
     = Inr (One (IntArray [1, 1, 4])) \<and>
   fst (site_filters (sites_fs [1, 1, 4]) ''3R'' ''gamb_colu'' ''filter_pass'' ''dt_20200416''
          example_ag3) = Inr [True, False, True] \<and>
   fst (is_accessible (sites_fs [1, 1, 4]) ''3R'' ''gamb_colu'' ''dt_20200416'' example_ag3)
     = Inr [False, False, False, True, False] \<and>
   count_true [False, False, False, True, False] = 1 \<and>
   count_true [True, False, True] = 2"
proof -
  have 1: "fst (snp_sites (sites_fs [1, 1, 4]) ''3R'' (Some ''POS'') None ''dt_20200416''
     example_ag3) = Inr (One (IntArray [1, 1, 4]))" by code_simp
  have 2: "fst (site_filters (sites_fs [1, 1, 4]) ''3R'' ''gamb_colu'' ''filter_pass''
     ''dt_20200416'' example_ag3) = Inr [True, False, True]" by code_simp
  have 3: "fst (is_accessible (sites_fs [1, 1, 4]) ''3R'' ''gamb_colu'' ''dt_20200416''
     example_ag3) = Inr [False, False, False, True, False]" by code_simp
  have 4: "count_true [False, False, False, True, False] = 1" by code_simp
  have 5: "count_true [True, False, True] = 2" by code_simp
  show ?thesis by (intro conjI example_coherent_any 1 2 3 4 5)
qed

section \<open>Sites under a mask\<close>

text \<open>
  Claim C5. \<^verbatim>\<open>snp_sites\<close> without a field and with a site mask returns the three arrays
  \<open>POS\<close>, \<open>REF\<close> and \<open>ALT\<close> of the contig, each compressed along axis 0 by the one filter
  array that \<^verbatim>\<open>site_filters\<close> gives for that mask and contig; each of the three has as
  many entries as the filter array has true values.
\<close>

theorem snp_sites_masked:
  assumes "coherent fs s"
    and "snp_sites fs contig None (Some m) analysis s = (Inr res, s')"
  shows "\<exists>filter_pass pos ref alt pos' ref' alt'.
     fst (site_filters fs contig m ''filter_pass'' analysis s) = Inr filter_pass \<and>
     fst (snp_sites fs contig None None analysis s) = Inr (Three pos ref alt) \<and>
     compress_varray filter_pass pos = Inr pos' \<and>
     compress_varray filter_pass ref = Inr ref' \<and>
     compress_varray filter_pass alt = Inr alt' \<and>
     res = Three pos' ref' alt' \<and>
     varray_length pos' = count_true filter_pass \<and>
     varray_length ref' = count_true filter_pass \<and>
     varray_length alt' = count_true filter_pass"
proof -
  let ?A = "snp_sites fs contig None None analysis"
  from assms(2) obtain ret s1 fp where
    a: "?A s = (Inr ret, s1)" and
    f: "site_filters fs contig m ''filter_pass'' analysis s1 = (Inr fp, s')" and
    c: "(case ret of
           Three pos ref alt \<Rightarrow>
             then_do (compress_varray fp pos) (\<lambda>p.
             then_do (compress_varray fp ref) (\<lambda>r.
             then_do (compress_varray fp alt) (\<lambda>a. Inr (Three p r a))))
         | One d \<Rightarrow> then_do (compress_varray fp d) (\<lambda>a. Inr (One a))) = Inr res"
    unfolding snp_sites_unmasked unfolding snp_sites_def
    by (auto simp: io_bind_Inr' io_return_def io_lift_def)
  from a obtain pos ref alt where ret: "ret = Three pos ref alt"
    unfolding snp_sites_unmasked by (auto simp: io_bind_Inr' io_return_def)
  note d = stableD[OF stable_snp_sites assms(1) a]
  have "fst (site_filters fs contig m ''filter_pass'' analysis s) = Inr fp"
    using stable_later[OF stable_site_filters assms(1) d(1,2), of contig m "''filter_pass''" analysis] f
    by simp
  moreover from c ret obtain p r al where
    "compress_varray fp pos = Inr p" "compress_varray fp ref = Inr r"
    "compress_varray fp alt = Inr al" "res = Three p r al"
    by (auto simp: then_do_Inr)
  ultimately show ?thesis using a ret by (auto simp: compress_varray_length)
qed

theorem snp_sites_masked_witness:
  "coherent example_fs example_ag3 \<and>
   fst (snp_sites example_fs ''3R'' None (Some ''gamb_colu'') ''dt_20200416'' example_ag3) =
     Inr (Three (IntArray [1, 4]) (BytesArray [''A'', ''T'']) (BytesArray [''CGT'', ''ACG''])) \<and>
   fst (site_filters example_fs ''3R'' ''gamb_colu'' ''filter_pass'' ''dt_20200416'' example_ag3) =
     Inr [True, False, True] \<and>
   count_true [True, False, True] = 2"
proof -
  let ?run = "snp_sites example_fs ''3R'' None (Some ''gamb_colu'') ''dt_20200416'' example_ag3"
  have r: "fst ?run =
     Inr (Three (IntArray [1, 4]) (BytesArray [''A'', ''T'']) (BytesArray [''CGT'', ''ACG'']))"
    by code_simp
  then have run: "?run = (Inr (Three (IntArray [1, 4]) (BytesArray [''A'', ''T''])
      (BytesArray [''CGT'', ''ACG''])), snd ?run)"
    by (metis prod.collapse)
  from snp_sites_masked[OF example_coherent run]
  obtain fp where "fst (site_filters example_fs ''3R'' ''gamb_colu'' ''filter_pass''
      ''dt_20200416'' example_ag3) = Inr fp" "varray_length (IntArray [1, 4]) = count_true fp"
    by auto
  moreover have "fst (site_filters example_fs ''3R'' ''gamb_colu'' ''filter_pass''
      ''dt_20200416'' example_ag3) = Inr [True, False, True]"
    by code_simp
  ultimately show ?thesis using r example_coherent by (simp add: varray_length_def)
qed

section \<open>The store cache\<close>

text \<open>
  Claim C6. A manifest (key: release), a general metadata table or a genotype store (key:
  sample set), a species-call table (key: sample set, analysis, method) and a site-filter
  store (key: mask, analysis) that a call has returned is returned again, the identical
  object with its identity token, by the same call in every later state \<open>t\<close> of the
  instance, and that call leaves \<open>t\<close> as it is: it adds nothing to the log of physical
  opens. Identity is more than equal content: two physical opens never give the same
  token.
\<close>

theorem cached_object_returned_again:
  assumes "extends s' t"
  shows
    "(sample_sets fs release s = (Inr ob_a, s') \<longrightarrow> sample_sets fs release t = (Inr ob_a, t)) \<and>
     (read_general_metadata fs sample_set s = (Inr ob_b, s') \<longrightarrow>
        read_general_metadata fs sample_set t = (Inr ob_b, t)) \<and>
     (read_species_calls fs sample_set analysis meth s = (Inr ob_c, s') \<longrightarrow>
        read_species_calls fs sample_set analysis meth t = (Inr ob_c, t)) \<and>
     (open_site_filters fs m analysis s = (Inr ob_d, s') \<longrightarrow>
        open_site_filters fs m analysis t = (Inr ob_d, t)) \<and>
     (open_snp_genotypes fs sample_set s = (Inr ob_e, s') \<longrightarrow>
        open_snp_genotypes fs sample_set t = (Inr ob_e, t)) \<and>
     (physical p r s = (Inr ob_f, s') \<and> physical p' r' t = (Inr ob_g, t') \<longrightarrow> fst ob_f \<noteq> fst ob_g)"
proof (intro conjI impI)
  assume "sample_sets fs release s = (Inr ob_a, s')"
  then show "sample_sets fs release t = (Inr ob_a, t)" using assms by (rule sample_sets_again)
next
  assume "read_general_metadata fs sample_set s = (Inr ob_b, s')"
  from extendsD(4)[OF assms read_general_metadata_cached[OF this]]
  show "read_general_metadata fs sample_set t = (Inr ob_b, t)"
    by (simp add: read_general_metadata_def)
next
  assume "read_species_calls fs sample_set analysis meth s = (Inr ob_c, s')"
  from extendsD(5)[OF assms read_species_calls_cached[OF this]]
  show "read_species_calls fs sample_set analysis meth t = (Inr ob_c, t)"
    by (simp add: read_species_calls_def)
next
  assume "open_site_filters fs m analysis s = (Inr ob_d, s')"
  from extendsD(6)[OF assms open_site_filters_cached[OF this]]
  show "open_site_filters fs m analysis t = (Inr ob_d, t)"
    by (simp add: open_site_filters_def)
next
  assume "open_snp_genotypes fs sample_set s = (Inr ob_e, s')"
  from extendsD(8)[OF assms open_snp_genotypes_cached[OF this]]
  show "open_snp_genotypes fs sample_set t = (Inr ob_e, t)"
    by (simp add: open_snp_genotypes_def)
next
  assume "physical p r s = (Inr ob_f, s') \<and> physical p' r' t = (Inr ob_g, t')"
  then have "physical p r s = (Inr ob_f, s')" "physical p' r' t = (Inr ob_g, t')" by simp_all
  from physical_token[OF this(1) assms this(2)] show "fst ob_f \<noteq> fst ob_g" by simp
qed

theorem cached_object_returned_again_witness:
  "(let r = sample_sets example_fs ''v3'' example_ag3
    in r = (Inr (projr (fst r)), snd r) \<and> sample_sets example_fs ''v3'' (snd r) = r) \<and>
   (let r = read_general_metadata example_fs ''A'' example_ag3
    in r = (Inr (projr (fst r)), snd r) \<and> read_general_metadata example_fs ''A'' (snd r) = r) \<and>
   (let r = read_species_calls example_fs ''A'' ''20200422'' ''aim'' example_ag3
    in r = (Inr (projr (fst r)), snd r) \<and>
       read_species_calls example_fs ''A'' ''20200422'' ''aim'' (snd r) = r) \<and>
   (let r = open_site_filters example_fs ''gamb_colu'' ''dt_20200416'' example_ag3
    in r = (Inr (projr (fst r)), snd r) \<and>
       open_site_filters example_fs ''gamb_colu'' ''dt_20200416'' (snd r) = r) \<and>
   (let r = open_snp_genotypes example_fs ''A'' example_ag3
    in r = (Inr (projr (fst r)), snd r) \<and> open_snp_genotypes example_fs ''A'' (snd r) = r) \<and>
   (let r = physical ''p'' (Inr (0::nat)) example_ag3
    in r = (Inr (projr (fst r)), snd r) \<and>
       fst (projr (fst r)) \<noteq> fst (projr (fst (physical ''p'' (Inr (0::nat)) (snd r)))))"
proof -
  let ?r1 = "sample_sets example_fs ''v3'' example_ag3"
  let ?r2 = "read_general_metadata example_fs ''A'' example_ag3"
  let ?r3 = "read_species_calls example_fs ''A'' ''20200422'' ''aim'' example_ag3"
  let ?r4 = "open_site_filters example_fs ''gamb_colu'' ''dt_20200416'' example_ag3"
  let ?r5 = "open_snp_genotypes example_fs ''A'' example_ag3"
  let ?r6 = "physical ''p'' (Inr (0::nat)) example_ag3"
  let ?r7 = "physical ''p'' (Inr (0::nat)) (snd ?r6)"
  have "case fst ?r1 of Inl e \<Rightarrow> False | Inr x \<Rightarrow> True" by code_simp
  then have r1: "?r1 = (Inr (projr (fst ?r1)), snd ?r1)" by (rule run_Inr)
  have "case fst ?r2 of Inl e \<Rightarrow> False | Inr x \<Rightarrow> True" by code_simp
  then have r2: "?r2 = (Inr (projr (fst ?r2)), snd ?r2)" by (rule run_Inr)
  have "case fst ?r3 of Inl e \<Rightarrow> False | Inr x \<Rightarrow> True" by code_simp
  then have r3: "?r3 = (Inr (projr (fst ?r3)), snd ?r3)" by (rule run_Inr)
  have "case fst ?r4 of Inl e \<Rightarrow> False | Inr x \<Rightarrow> True" by code_simp
  then have r4: "?r4 = (Inr (projr (fst ?r4)), snd ?r4)" by (rule run_Inr)
  have "case fst ?r5 of Inl e \<Rightarrow> False | Inr x \<Rightarrow> True" by code_simp
  then have r5: "?r5 = (Inr (projr (fst ?r5)), snd ?r5)" by (rule run_Inr)
  have r6: "?r6 = (Inr (projr (fst ?r6)), snd ?r6)" by (simp add: physical_def)
  have r7: "?r7 = (Inr (projr (fst ?r7)), snd ?r7)" by (simp add: physical_def)
  note again = cached_object_returned_again[OF extends_refl]
  have c1: "sample_sets example_fs ''v3'' (snd ?r1) = ?r1"
    by (rule trans[OF again[where fs = example_fs and release = "''v3''" and s = example_ag3
        and s' = "snd ?r1" and ob_a = "projr (fst ?r1)", THEN conjunct1, THEN mp, OF r1]
        r1[symmetric]])
  have c2: "read_general_metadata example_fs ''A'' (snd ?r2) = ?r2"
    by (rule trans[OF again[where fs = example_fs and sample_set = "''A''" and s = example_ag3
        and s' = "snd ?r2" and ob_b = "projr (fst ?r2)",
        THEN conjunct2, THEN conjunct1, THEN mp, OF r2] r2[symmetric]])
  have c3: "read_species_calls example_fs ''A'' ''20200422'' ''aim'' (snd ?r3) = ?r3"
    by (rule trans[OF again[where fs = example_fs and sample_set = "''A''" and s = example_ag3
        and analysis = "''20200422''" and meth = "''aim''"
        and s' = "snd ?r3" and ob_c = "projr (fst ?r3)",
        THEN conjunct2, THEN conjunct2, THEN conjunct1, THEN mp, OF r3] r3[symmetric]])
  have c4: "open_site_filters example_fs ''gamb_colu'' ''dt_20200416'' (snd ?r4) = ?r4"
    by (rule trans[OF again[where fs = example_fs and m = "''gamb_colu''" and s = example_ag3
        and analysis = "''dt_20200416''"
        and s' = "snd ?r4" and ob_d = "projr (fst ?r4)",
        THEN conjunct2, THEN conjunct2, THEN conjunct2, THEN conjunct1, THEN mp, OF r4]
        r4[symmetric]])
  have c5: "open_snp_genotypes example_fs ''A'' (snd ?r5) = ?r5"
    by (rule trans[OF again[where fs = example_fs and sample_set = "''A''" and s = example_ag3
        and s' = "snd ?r5" and ob_e = "projr (fst ?r5)",
        THEN conjunct2, THEN conjunct2, THEN conjunct2, THEN conjunct2, THEN conjunct1, THEN mp,
        OF r5] r5[symmetric]])
  have c6: "fst (projr (fst ?r6)) \<noteq> fst (projr (fst ?r7))"
    by (rule again[where p = "''p''" and r = "Inr (0::nat)" and s = example_ag3
        and s' = "snd ?r6" and ob_f = "projr (fst ?r6)"
        and p' = "''p''" and r' = "Inr (0::nat)" and ob_g = "projr (fst ?r7)"
        and t' = "snd ?r7",
        THEN conjunct2, THEN conjunct2, THEN conjunct2, THEN conjunct2, THEN conjunct2, THEN mp,
        OF conjI[OF r6 r7]])
  show ?thesis
    unfolding Let_def by (intro conjI r1 r2 r3 r4 r5 r6 c1 c2 c3 c4 c5 c6)
qed

text \<open>
  Claim C7. When the physical read or open behind a cache key raises an error, the call
  raises that error, the cache of that kind is as it was (no entry for the key), and the
  same call on the state it left attempts the same physical read or open again: the path
  is logged once more.
\<close>

theorem failed_open_not_cached:
  "(release \<in> set (releases s) \<and> cache_sample_sets s release = None \<and>
      read_csv fs (path s @ ''/'' @ release @ ''/manifest.tsv'') (CHR 0x09) = Inl e \<longrightarrow>
      (let p = path s @ ''/'' @ release @ ''/manifest.tsv'';
           s' = s\<lparr>io_log := io_log s @ [p]\<rparr>
       in sample_sets fs release s = (Inl e, s') \<and>
          cache_sample_sets s' = cache_sample_sets s \<and>
          sample_sets fs release s' = (Inl e, s'\<lparr>io_log := io_log s' @ [p]\<rparr>))) \<and>
   (cache_general_metadata s sample_set = None \<and>
      lookup_release fs sample_set s = (Inr rel, s1) \<and>
      read_csv fs (path s @ ''/'' @ rel @ ''/metadata/general/'' @ sample_set
                     @ ''/samples.meta.csv'') (CHR '','') = Inl e \<longrightarrow>
      (let p = path s @ ''/'' @ rel @ ''/metadata/general/'' @ sample_set @ ''/samples.meta.csv'';
           s' = s1\<lparr>io_log := io_log s1 @ [p]\<rparr>
       in read_general_metadata fs sample_set s = (Inl e, s') \<and>
          cache_general_metadata s' = cache_general_metadata s \<and>
          read_general_metadata fs sample_set s' = (Inl e, s'\<lparr>io_log := io_log s' @ [p]\<rparr>))) \<and>
   (cache_species_calls s (sample_set, analysis, meth) = None \<and>
      lookup_release fs sample_set s = (Inr rel, s1) \<and>
      read_csv fs (path s @ ''/'' @ rel @ ''/metadata/species_calls_'' @ analysis @ ''/''
                     @ sample_set @ ''/samples.species_'' @ meth @ ''.csv'') (CHR '','')
        = Inl e \<longrightarrow>
      (let p = path s @ ''/'' @ rel @ ''/metadata/species_calls_'' @ analysis @ ''/''
                 @ sample_set @ ''/samples.species_'' @ meth @ ''.csv'';
           s' = s1\<lparr>io_log := io_log s1 @ [p]\<rparr>
       in read_species_calls fs sample_set analysis meth s = (Inl e, s') \<and>
          cache_species_calls s' = cache_species_calls s \<and>
          read_species_calls fs sample_set analysis meth s' =
            (Inl e, s'\<lparr>io_log := io_log s' @ [p]\<rparr>))) \<and>
   (cache_site_filters s (m, analysis) = None \<and>
      open_filters_store fs (path s @ ''/v3/site_filters/'' @ analysis @ ''/'' @ m @ ''/'')
        = Inl e \<longrightarrow>
      (let p = path s @ ''/v3/site_filters/'' @ analysis @ ''/'' @ m @ ''/'';
           s' = s\<lparr>io_log := io_log s @ [p]\<rparr>
       in open_site_filters fs m analysis s = (Inl e, s') \<and>
          cache_site_filters s' = cache_site_filters s \<and>
          open_site_filters fs m analysis s' = (Inl e, s'\<lparr>io_log := io_log s' @ [p]\<rparr>))) \<and>
   (cache_snp_genotypes s sample_set = None \<and>
      lookup_release fs sample_set s = (Inr rel, s1) \<and>
      open_genotypes_store fs (path s @ ''/'' @ rel @ ''/snp_genotypes/all/'' @ sample_set @ ''/'')
        = Inl e \<longrightarrow>
      (let p = path s @ ''/'' @ rel @ ''/snp_genotypes/all/'' @ sample_set @ ''/'';
           s' = s1\<lparr>io_log := io_log s1 @ [p]\<rparr>
       in open_snp_genotypes fs sample_set s = (Inl e, s') \<and>
          cache_snp_genotypes s' = cache_snp_genotypes s \<and>
          open_snp_genotypes fs sample_set s' = (Inl e, s'\<lparr>io_log := io_log s' @ [p]\<rparr>)))"
proof (intro conjI impI; elim conjE)
  assume a: "release \<in> set (releases s)" "cache_sample_sets s release = None"
    "read_csv fs (path s @ ''/'' @ release @ ''/manifest.tsv'') (CHR 0x09) = Inl e"
  let ?p = "path s @ ''/'' @ release @ ''/manifest.tsv''"
  let ?s' = "s\<lparr>io_log := io_log s @ [?p]\<rparr>"
  have "sample_sets fs release ?s' = (Inl e, ?s'\<lparr>io_log := io_log ?s' @ [?p]\<rparr>)"
    using failed_sample_sets[of release ?s' fs e] a by simp
  with failed_sample_sets[OF a]
  show "let p = ?p; s' = s\<lparr>io_log := io_log s @ [p]\<rparr>
       in sample_sets fs release s = (Inl e, s') \<and>
          cache_sample_sets s' = cache_sample_sets s \<and>
          sample_sets fs release s' = (Inl e, s'\<lparr>io_log := io_log s' @ [p]\<rparr>)"
    by (simp add: Let_def)
next
  assume a: "cache_general_metadata s sample_set = None"
    "lookup_release fs sample_set s = (Inr rel, s1)"
    "read_csv fs (path s @ ''/'' @ rel @ ''/metadata/general/'' @ sample_set
                     @ ''/samples.meta.csv'') (CHR '','') = Inl e"
  let ?p = "path s @ ''/'' @ rel @ ''/metadata/general/'' @ sample_set @ ''/samples.meta.csv''"
  let ?s' = "s1\<lparr>io_log := io_log s1 @ [?p]\<rparr>"
  note mo = manifests_only_sel[OF lookup_release_frame[OF a(2)]]
  have l': "lookup_release fs sample_set ?s' = (Inr rel, ?s')"
    by (rule lookup_release_again[OF a(2) extends_log])
  have 1: "read_general_metadata fs sample_set s = (Inl e, ?s')"
    using failed_read_general_metadata[OF a(1,2)] a(3) mo(1) by simp
  have 2: "read_general_metadata fs sample_set ?s' = (Inl e, ?s'\<lparr>io_log := io_log ?s' @ [?p]\<rparr>)"
    using failed_read_general_metadata[OF _ l', of e] a(1,3) mo(1,3) by simp
  from 1 2 mo(3)
  show "let p = ?p; s' = s1\<lparr>io_log := io_log s1 @ [p]\<rparr>
       in read_general_metadata fs sample_set s = (Inl e, s') \<and>
          cache_general_metadata s' = cache_general_metadata s \<and>
          read_general_metadata fs sample_set s' = (Inl e, s'\<lparr>io_log := io_log s' @ [p]\<rparr>)"
    by (simp add: Let_def)
next
  assume a: "cache_species_calls s (sample_set, analysis, meth) = None"
    "lookup_release fs sample_set s = (Inr rel, s1)"
    "read_csv fs (path s @ ''/'' @ rel @ ''/metadata/species_calls_'' @ analysis @ ''/''
                     @ sample_set @ ''/samples.species_'' @ meth @ ''.csv'') (CHR '','')
        = Inl e"
  let ?p = "path s @ ''/'' @ rel @ ''/metadata/species_calls_'' @ analysis @ ''/''
                 @ sample_set @ ''/samples.species_'' @ meth @ ''.csv''"
  let ?s' = "s1\<lparr>io_log := io_log s1 @ [?p]\<rparr>"
  note mo = manifests_only_sel[OF lookup_release_frame[OF a(2)]]
  have l': "lookup_release fs sample_set ?s' = (Inr rel, ?s')"
    by (rule lookup_release_again[OF a(2) extends_log])
  have 1: "read_species_calls fs sample_set analysis meth s = (Inl e, ?s')"
    using failed_read_species_calls[OF a(1,2)] a(3) mo(1) by simp
  have 2: "read_species_calls fs sample_set analysis meth ?s' =
             (Inl e, ?s'\<lparr>io_log := io_log ?s' @ [?p]\<rparr>)"
    using failed_read_species_calls[OF _ l', of analysis meth e] a(1,3) mo(1,4) by simp
  from 1 2 mo(4)
  show "let p = ?p; s' = s1\<lparr>io_log := io_log s1 @ [p]\<rparr>
       in read_species_calls fs sample_set analysis meth s = (Inl e, s') \<and>
          cache_species_calls s' = cache_species_calls s \<and>
          read_species_calls fs sample_set analysis meth s' =
            (Inl e, s'\<lparr>io_log := io_log s' @ [p]\<rparr>)"
    by (simp add: Let_def)
next
  assume a: "cache_site_filters s (m, analysis) = None"
    "open_filters_store fs (path s @ ''/v3/site_filters/'' @ analysis @ ''/'' @ m @ ''/'') = Inl e"
  let ?p = "path s @ ''/v3/site_filters/'' @ analysis @ ''/'' @ m @ ''/''"
  let ?s' = "s\<lparr>io_log := io_log s @ [?p]\<rparr>"
  have "open_site_filters fs m analysis ?s' = (Inl e, ?s'\<lparr>io_log := io_log ?s' @ [?p]\<rparr>)"
    using failed_open_site_filters[of ?s' m analysis fs e] a by simp
  with failed_open_site_filters[OF a]
  show "let p = ?p; s' = s\<lparr>io_log := io_log s @ [p]\<rparr>
       in open_site_filters fs m analysis s = (Inl e, s') \<and>
          cache_site_filters s' = cache_site_filters s \<and>
          open_site_filters fs m analysis s' = (Inl e, s'\<lparr>io_log := io_log s' @ [p]\<rparr>)"
    by (simp add: Let_def)
next
  assume a: "cache_snp_genotypes s sample_set = None"
    "lookup_release fs sample_set s = (Inr rel, s1)"
    "open_genotypes_store fs (path s @ ''/'' @ rel @ ''/snp_genotypes/all/'' @ sample_set @ ''/'')
        = Inl e"
  let ?p = "path s @ ''/'' @ rel @ ''/snp_genotypes/all/'' @ sample_set @ ''/''"
  let ?s' = "s1\<lparr>io_log := io_log s1 @ [?p]\<rparr>"
  note mo = manifests_only_sel[OF lookup_release_frame[OF a(2)]]
  have l': "lookup_release fs sample_set ?s' = (Inr rel, ?s')"
    by (rule lookup_release_again[OF a(2) extends_log])
  have 1: "open_snp_genotypes fs sample_set s = (Inl e, ?s')"
    using failed_open_snp_genotypes[OF a(1,2)] a(3) mo(1) by simp
  have 2: "open_snp_genotypes fs sample_set ?s' = (Inl e, ?s'\<lparr>io_log := io_log ?s' @ [?p]\<rparr>)"
    using failed_open_snp_genotypes[OF _ l', of e] a(1,3) mo(1,7) by simp
  from 1 2 mo(7)
  show "let p = ?p; s' = s1\<lparr>io_log := io_log s1 @ [p]\<rparr>
       in open_snp_genotypes fs sample_set s = (Inl e, s') \<and>
          cache_snp_genotypes s' = cache_snp_genotypes s \<and>
          open_snp_genotypes fs sample_set s' = (Inl e, s'\<lparr>io_log := io_log s' @ [p]\<rparr>)"
    by (simp add: Let_def)
qed

theorem failed_open_not_cached_witness:
  "(let p = ''data/v3.1/manifest.tsv''; e = StorageError p;
        s' = example_pre_ag3\<lparr>io_log := [p]\<rparr>
    in sample_sets example_fs ''v3.1'' example_pre_ag3 = (Inl e, s') \<and>
       cache_sample_sets s' = cache_sample_sets example_pre_ag3 \<and>
       sample_sets example_fs ''v3.1'' s' = (Inl e, s'\<lparr>io_log := [p, p]\<rparr>)) \<and>
   (let s1 = snd (lookup_release broken_fs ''A'' example_ag3);
        p = ''data/v3/metadata/general/A/samples.meta.csv''; e = StorageError p;
        s' = s1\<lparr>io_log := io_log s1 @ [p]\<rparr>
    in lookup_release broken_fs ''A'' example_ag3 = (Inr ''v3'', s1) \<and>
       read_general_metadata broken_fs ''A'' example_ag3 = (Inl e, s') \<and>
       cache_general_metadata s' = cache_general_metadata example_ag3 \<and>
       read_general_metadata broken_fs ''A'' s' = (Inl e, s'\<lparr>io_log := io_log s' @ [p]\<rparr>)) \<and>
   (let s1 = snd (lookup_release broken_fs ''A'' example_ag3);
        p = ''data/v3/metadata/species_calls_20200422/A/samples.species_aim.csv'';
        e = StorageError p; s' = s1\<lparr>io_log := io_log s1 @ [p]\<rparr>
    in read_species_calls broken_fs ''A'' ''20200422'' ''aim'' example_ag3 = (Inl e, s') \<and>
       cache_species_calls s' = cache_species_calls example_ag3 \<and>
       read_species_calls broken_fs ''A'' ''20200422'' ''aim'' s' =
         (Inl e, s'\<lparr>io_log := io_log s' @ [p]\<rparr>)) \<and>
   (let p = ''data/v3/site_filters/dt_20200416/gamb_colu/''; e = StorageError p;
        s' = example_ag3\<lparr>io_log := [p]\<rparr>
    in open_site_filters broken_fs ''gamb_colu'' ''dt_20200416'' example_ag3 = (Inl e, s') \<and>
       cache_site_filters s' = cache_site_filters example_ag3 \<and>
       open_site_filters broken_fs ''gamb_colu'' ''dt_20200416'' s' =
         (Inl e, s'\<lparr>io_log := [p, p]\<rparr>)) \<and>
   (let s1 = snd (lookup_release broken_fs ''A'' example_ag3);
        p = ''data/v3/snp_genotypes/all/A/''; e = StorageError p;
        s' = s1\<lparr>io_log := io_log s1 @ [p]\<rparr>
    in open_snp_genotypes broken_fs ''A'' example_ag3 = (Inl e, s') \<and>
       cache_snp_genotypes s' = cache_snp_genotypes example_ag3 \<and>
       open_snp_genotypes broken_fs ''A'' s' = (Inl e, s'\<lparr>io_log := io_log s' @ [p]\<rparr>))"
proof -
  let ?s1 = "snd (lookup_release broken_fs ''A'' example_ag3)"
  have "fst (lookup_release broken_fs ''A'' example_ag3) = Inr ''v3''" by code_simp
  then have l: "lookup_release broken_fs ''A'' example_ag3 = (Inr ''v3'', ?s1)"
    by (metis prod.collapse)
  have h1: "''v3.1'' \<in> set (releases example_pre_ag3) \<and>
      cache_sample_sets example_pre_ag3 ''v3.1'' = None \<and>
      read_csv example_fs (path example_pre_ag3 @ ''/'' @ ''v3.1'' @ ''/manifest.tsv'') (CHR 0x09)
        = Inl (StorageError ''data/v3.1/manifest.tsv'')"
    by (simp add: example_pre_ag3_def example_ag3_def example_fs_def)
  have h2: "cache_general_metadata example_ag3 ''A'' = None \<and>
      lookup_release broken_fs ''A'' example_ag3 = (Inr ''v3'', ?s1) \<and>
      read_csv broken_fs (path example_ag3 @ ''/'' @ ''v3'' @ ''/metadata/general/'' @ ''A''
                     @ ''/samples.meta.csv'') (CHR '','')
        = Inl (StorageError ''data/v3/metadata/general/A/samples.meta.csv'')"
    using l by (simp add: example_ag3_def example_fs_def broken_fs_def)
  have h3: "cache_species_calls example_ag3 (''A'', ''20200422'', ''aim'') = None \<and>
      lookup_release broken_fs ''A'' example_ag3 = (Inr ''v3'', ?s1) \<and>
      read_csv broken_fs (path example_ag3 @ ''/'' @ ''v3'' @ ''/metadata/species_calls_''
                     @ ''20200422'' @ ''/'' @ ''A'' @ ''/samples.species_'' @ ''aim'' @ ''.csv'')
          (CHR '','')
        = Inl (StorageError ''data/v3/metadata/species_calls_20200422/A/samples.species_aim.csv'')"
    using l by (simp add: example_ag3_def example_fs_def broken_fs_def)
  have h4: "cache_site_filters example_ag3 (''gamb_colu'', ''dt_20200416'') = None \<and>
      open_filters_store broken_fs
        (path example_ag3 @ ''/v3/site_filters/'' @ ''dt_20200416'' @ ''/'' @ ''gamb_colu'' @ ''/'')
        = Inl (StorageError ''data/v3/site_filters/dt_20200416/gamb_colu/'')"
    by (simp add: example_ag3_def example_fs_def broken_fs_def)
  have h5: "cache_snp_genotypes example_ag3 ''A'' = None \<and>
      lookup_release broken_fs ''A'' example_ag3 = (Inr ''v3'', ?s1) \<and>
      open_genotypes_store broken_fs
        (path example_ag3 @ ''/'' @ ''v3'' @ ''/snp_genotypes/all/'' @ ''A'' @ ''/'')
        = Inl (StorageError ''data/v3/snp_genotypes/all/A/'')"
    using l by (simp add: example_ag3_def example_fs_def broken_fs_def)
  note c1 = failed_open_not_cached[THEN conjunct1, THEN mp, OF h1]
  note c2 = failed_open_not_cached[THEN conjunct2, THEN conjunct1, THEN mp, OF h2]
  note c3 = failed_open_not_cached[THEN conjunct2, THEN conjunct2, THEN conjunct1, THEN mp, OF h3]
  note c4 = failed_open_not_cached[THEN conjunct2, THEN conjunct2, THEN conjunct2,
      THEN conjunct1, THEN mp, OF h4]
  note c5 = failed_open_not_cached[THEN conjunct2, THEN conjunct2, THEN conjunct2,
      THEN conjunct2, THEN mp, OF h5]
  have p: "path example_ag3 = ''data''" "path example_pre_ag3 = ''data''"
    "io_log example_ag3 = []" "io_log example_pre_ag3 = []"
    by (simp_all add: example_ag3_def example_pre_ag3_def)
  show ?thesis
    using c1 c2 c3 c4 c5 l by (simp add: Let_def p)
qed

section \<open>Release validation\<close>

text \<open>
  Claim C8, as amended. For a release discovered at initialization, \<^verbatim>\<open>sample_sets\<close> passes
  validation and returns that release's manifest with its \<open>release\<close> column whenever the
  manifest file can be read; when it cannot, the error of the read is raised unchanged.
  For any other string it raises \<open>ValueError\<close> (the specification's not-found error)
  and leaves the instance as it is.
\<close>

theorem sample_sets_validates:
  assumes "init fs root pre = Inr s0" and "extends s0 s" and "coherent fs s"
  shows
    "(release \<in> set (releases s0) \<longrightarrow>
        fst (content (sample_sets fs release) s) =
          then_do (read_csv fs (root @ ''/'' @ release @ ''/manifest.tsv'') (CHR 0x09))
            (\<lambda>t. Inr (assign_scalar ''release'' (Text release) (new_frame t)))) \<and>
     (release \<notin> set (releases s0) \<longrightarrow>
        sample_sets fs release s = (Inl (ValueError (''Release not available: '' @ release)), s))"
proof -
  have r: "releases s = releases s0" "path s = root"
    using assms(1,2) by (auto simp: extends_def init_def then_do_def Let_def split: sum.splits if_splits)
  show ?thesis
  proof (intro conjI impI)
    assume "release \<in> set (releases s0)"
    then show "fst (content (sample_sets fs release) s) =
          then_do (read_csv fs (root @ ''/'' @ release @ ''/manifest.tsv'') (CHR 0x09))
            (\<lambda>t. Inr (assign_scalar ''release'' (Text release) (new_frame t)))"
      unfolding stable_value[OF stable_sample_sets assms(3)]
      using r
      by (simp add: content_def sample_sets_def io_bind_def physical_def io_return_def then_do_def
          Let_def split: sum.splits)
  next
    assume "release \<notin> set (releases s0)"
    then show "sample_sets fs release s =
        (Inl (ValueError (''Release not available: '' @ release)), s)"
      using r by (simp add: sample_sets_def)
  qed
qed

theorem sample_sets_validates_witness:
  "init example_fs ''data'' False = Inr example_ag3 \<and> extends example_ag3 example_ag3 \<and>
   coherent example_fs example_ag3 \<and>
   ''v3'' \<in> set (releases example_ag3) \<and>
   fst (content (sample_sets example_fs ''v3'') example_ag3) =
     Inr \<lparr>columns = [''sample_set'', ''release''], index = [0, 1],
          rows = [[(''sample_set'', Text ''A''), (''release'', Text ''v3'')],
                  [(''sample_set'', Text ''B''), (''release'', Text ''v3'')]]\<rparr> \<and>
   ''v9'' \<notin> set (releases example_ag3) \<and>
   sample_sets example_fs ''v9'' example_ag3 =
     (Inl (ValueError ''Release not available: v9''), example_ag3)"
proof -
  note t = sample_sets_validates[OF example_init extends_refl example_coherent]
  have 1: "''v3'' \<in> set (releases example_ag3)" and 2: "''v9'' \<notin> set (releases example_ag3)"
    by (simp_all add: example_ag3_def)
  have "read_csv example_fs (''data'' @ ''/'' @ ''v3'' @ ''/manifest.tsv'') (CHR 0x09) =
      Inr ([''sample_set''], [[(''sample_set'', Text ''A'')], [(''sample_set'', Text ''B'')]])"
    by (simp add: example_fs_def)
  with t[of "''v3''", THEN conjunct1, THEN mp, OF 1]
  have "fst (content (sample_sets example_fs ''v3'') example_ag3) =
     Inr \<lparr>columns = [''sample_set'', ''release''], index = [0, 1],
          rows = [[(''sample_set'', Text ''A''), (''release'', Text ''v3'')],
                  [(''sample_set'', Text ''B''), (''release'', Text ''v3'')]]\<rparr>"
    by (simp add: then_do_def new_frame_def assign_scalar_def add_column_def)
  with t[of "''v9''", THEN conjunct2, THEN mp, OF 2] 1 2 example_init example_coherent
  show ?thesis by (simp add: extends_refl)
qed

text \<open>
  The claim as it was stated fails where a discovered release has no readable manifest:
  release \<open>v3.1\<close> of the example store is discovered with \<^verbatim>\<open>pre=True\<close>, and the call does
  not succeed.
\<close>

theorem sample_sets_validates_counterexample:
  "init example_fs ''data'' True = Inr example_pre_ag3 \<and>
   ''v3.1'' \<in> set (releases example_pre_ag3) \<and>
   fst (sample_sets example_fs ''v3.1'' example_pre_ag3) =
     Inl (StorageError ''data/v3.1/manifest.tsv'')"
  by (simp add: example_pre_init)
     (simp add: sample_sets_def example_pre_ag3_def example_ag3_def example_fs_def io_bind_def
       physical_def)

text \<open>
  Claim C9. With a site mask, \<^verbatim>\<open>snp_genotypes\<close> for an argument that resolves to the list
  \<open>cs\<close> compresses once, after concatenation: the result is the concatenation \<open>whole\<close> of
  the unmasked arrays for the elements of \<open>cs\<close>, compressed along axis 0 by the filter array
  of the mask. It is also the concatenation of the arrays that \<^verbatim>\<open>snp_genotypes\<close> returns
  for each element under the same mask: compressing along axis 0 and concatenating along
  axis 1 commute.
\<close>

theorem mask_after_concatenation:
  assumes "coherent fs s"
    and "prep_sample_sets_arg fs sets s = (Inr (Seq cs), s0)"
    and "snp_genotypes depth fs contig sets field (Some m) analysis s = (Inr d, s')"
  shows "\<exists>ds filter_pass whole masked.
     list_all2 (\<lambda>c dc. fst (snp_genotypes depth fs contig c field None ''dt_20200416'' s)
                          = Inr dc) cs ds \<and>
     fst (site_filters fs contig m ''filter_pass'' analysis s) = Inr filter_pass \<and>
     concatenate ds = Inr whole \<and>
     compress_garray filter_pass whole = Inr d \<and>
     list_all2 (\<lambda>c mc. fst (snp_genotypes depth fs contig c field (Some m) analysis s)
                          = Inr mc) cs masked \<and>
     concatenate masked = Inr d"
proof -
  from assms(3) obtain whole s1 fp where
    u: "snp_genotypes depth fs contig sets field None ''dt_20200416'' s = (Inr whole, s1)" and
    f: "site_filters fs contig m ''filter_pass'' analysis s1 = (Inr fp, s')" and
    cw: "compress_garray fp whole = Inr d"
    unfolding snp_genotypes_masked by (auto simp: io_bind_Inr io_lift_def)
  obtain n where depth: "depth = Suc n"
    using u by (cases depth) (auto simp: io_lift_def)
  from snp_genotypes_list[OF assms(1,2) u[unfolded depth]] obtain ds where
    ds: "list_all2 (\<lambda>c dc. fst (snp_genotypes depth fs contig c field None ''dt_20200416'' s)
                          = Inr dc) cs ds" and cc: "concatenate ds = Inr whole"
    unfolding depth by blast
  note d1 = stableD[OF stable_snp_genotypes assms(1) u]
  have fp: "fst (site_filters fs contig m ''filter_pass'' analysis t) = Inr fp"
    if "coherent fs t" "extends s t" for t
    using stable_agree[OF stable_site_filters d1(1) that(1),
        of contig m "''filter_pass''" analysis]
      extends_fresh[OF that(2)] extends_fresh[OF d1(2)] f by simp
  from concatenate_compress[OF cc cw] obtain ms where
    ms: "list_all2 (\<lambda>dc mc. compress_garray fp dc = Inr mc) ds ms" and cm: "concatenate ms = Inr d"
    by blast
  have "list_all2 (\<lambda>c mc. fst (snp_genotypes depth fs contig c field (Some m) analysis s)
                          = Inr mc) cs ms"
    unfolding list_all2_conv_all_nth
  proof (intro conjI allI impI)
    show "length cs = length ms" using ds ms by (simp add: list_all2_lengthD)
  next
    fix i assume i: "i < length cs"
    from ds i have "fst (snp_genotypes depth fs contig (cs ! i) field None ''dt_20200416'' s)
        = Inr (ds ! i)" by (simp add: list_all2_conv_all_nth)
    then obtain t where
      r: "snp_genotypes depth fs contig (cs ! i) field None ''dt_20200416'' s = (Inr (ds ! i), t)"
      by (metis prod.collapse)
    note dt = stableD[OF stable_snp_genotypes assms(1) r]
    from fp[OF dt(1,2)] obtain t' where
      "site_filters fs contig m ''filter_pass'' analysis t = (Inr fp, t')"
      by (metis prod.collapse)
    moreover from ms ds i have "compress_garray fp (ds ! i) = Inr (ms ! i)"
      by (simp add: list_all2_conv_all_nth)
    ultimately show "fst (snp_genotypes depth fs contig (cs ! i) field (Some m) analysis s)
        = Inr (ms ! i)"
      unfolding snp_genotypes_masked using r by (simp add: io_bind_def io_lift_def)
  qed
  with ds fp[OF assms(1) extends_refl] cc cw cm show ?thesis by blast
qed

theorem mask_after_concatenation_witness:
  "coherent example_fs example_ag3 \<and>
   fst (prep_sample_sets_arg example_fs (Str ''v3'') example_ag3) =
     Inr (Seq [Str ''A'', Str ''B'']) \<and>
   fst (snp_genotypes 2 example_fs ''3R'' (Str ''v3'') ''GT'' (Some ''gamb_colu'') ''dt_20200416''
          example_ag3) =
     Inr \<lparr>n_sites = 2, trailing = [2],
          samples = [[[0, 0], [1, 1]], [[0, 1], [0, 0]], [[1, 1], [0, 1]]]\<rparr> \<and>
   (\<exists>masked.
      list_all2 (\<lambda>c mc. fst (snp_genotypes 2 example_fs ''3R'' c ''GT'' (Some ''gamb_colu'')
                               ''dt_20200416'' example_ag3) = Inr mc)
        [Str ''A'', Str ''B''] masked \<and>
      concatenate masked =
        Inr \<lparr>n_sites = 2, trailing = [2],
             samples = [[[0, 0], [1, 1]], [[0, 1], [0, 0]], [[1, 1], [0, 1]]]\<rparr>)"
proof -
  let ?D = "\<lparr>n_sites = 2, trailing = [2],
          samples = [[[0, 0], [1, 1]], [[0, 1], [0, 0]], [[1, 1], [0::int, 1]]]\<rparr>"
  let ?v = "snp_genotypes 2 example_fs ''3R'' (Str ''v3'') ''GT'' (Some ''gamb_colu'')
              ''dt_20200416'' example_ag3"
  let ?p = "prep_sample_sets_arg example_fs (Str ''v3'') example_ag3"
  have v: "fst ?v = Inr ?D" by code_simp
  then have runv: "?v = (Inr ?D, snd ?v)" by (metis prod.collapse)
  have p: "fst ?p = Inr (Seq [Str ''A'', Str ''B''])" by code_simp
  then have prep: "?p = (Inr (Seq [Str ''A'', Str ''B'']), snd ?p)" by (metis prod.collapse)
  from mask_after_concatenation[OF example_coherent prep runv] v p example_coherent
  show ?thesis by blast
qed

section \<open>The bounds of the write in the accessibility map\<close>

text \<open>
  Claim C10, amended. On an instance whose caches hold what the storage holds, let the
  genome sequence of the contig (shorter than \<open>2\<^sup>3\<^sup>1\<close>), the positions \<open>ps\<close> and the filter
  values be readable, with one filter value per position or a single filter value. If
  every position lies between 1 and the length \<open>L\<close> of the sequence, every write is at
  index \<open>pos - 1\<close>, inside the vector, and \<^verbatim>\<open>is_accessible\<close> returns. The positions are
  not checked by \<^verbatim>\<open>is_accessible\<close> but by numpy, which also accepts the indices
  \<open>-L, ..., -1\<close> and counts them from the end: \<^verbatim>\<open>is_accessible\<close> returns exactly when every
  position lies between \<open>1 - L\<close> and \<open>L\<close>, and fails with \<open>IndexError\<close> otherwise. A
  position between \<open>1 - L\<close> and 0 is neither refused, ignored nor clamped: its filter
  value is written at index \<open>pos - 1 + L\<close>.
\<close>

theorem is_accessible_bounds:
  assumes "coherent fs s"
    and "fst (genome_sequence fs contig s) = Inr sequence"
    and "fst (snp_sites fs contig (Some ''POS'') None ''dt_20200416'' s) = Inr (One (IntArray ps))"
    and "fst (site_filters fs contig m ''filter_pass'' analysis s) = Inr filter_pass"
    and "length filter_pass = length ps \<or> length filter_pass = 1"
    and "int (length sequence) < 2147483648"
  shows
    "(list_all (\<lambda>p. 1 \<le> p \<and> p \<le> int (length sequence)) ps \<longrightarrow>
        list_all (\<lambda>p. norm_index (length sequence) (minus_one p) = nat (p - 1) \<and>
                      nat (p - 1) < length sequence) ps \<and>
        (\<exists>acc. fst (is_accessible fs contig m analysis s) = Inr acc)) \<and>
     ((\<exists>acc. fst (is_accessible fs contig m analysis s) = Inr acc) \<longleftrightarrow>
        list_all (\<lambda>p. 1 - int (length sequence) \<le> p \<and> p \<le> int (length sequence)) ps) \<and>
     (\<not> list_all (\<lambda>p. 1 - int (length sequence) \<le> p \<and> p \<le> int (length sequence)) ps \<longrightarrow>
        (\<exists>msg. fst (is_accessible fs contig m analysis s) = Inl (IndexError msg))) \<and>
     list_all (\<lambda>p. 1 - int (length sequence) \<le> p \<and> p \<le> 0 \<longrightarrow>
                   norm_index (length sequence) (minus_one p) = nat (p - 1 + int (length sequence))) ps"
proof -
  let ?L = "length sequence"
  let ?set = "setitem (replicate ?L False) (map minus_one ps) filter_pass"
  have val: "fst (is_accessible fs contig m analysis s) = ?set"
    unfolding is_accessible_value[OF assms(1)] assms(2,3,4)
    by (simp add: then_do_def positions_def)
  have shape: "length filter_pass = length (map minus_one ps) \<or> length filter_pass = 1"
    using assms(5) by simp
  have ok: "list_all (index_ok (length (replicate ?L False))) (map minus_one ps) \<longleftrightarrow>
            list_all (\<lambda>p. 1 - int ?L \<le> p \<and> p \<le> int ?L) ps"
    by (simp add: list_all_iff index_ok_minus_one[OF assms(6)])
  have iff: "(\<exists>acc. fst (is_accessible fs contig m analysis s) = Inr acc) \<longleftrightarrow>
        list_all (\<lambda>p. 1 - int ?L \<le> p \<and> p \<le> int ?L) ps"
    unfolding val setitem_Inr_iff[OF shape] ok ..
  have 1: "list_all (\<lambda>p. 1 \<le> p \<and> p \<le> int ?L) ps \<longrightarrow>
        list_all (\<lambda>p. norm_index ?L (minus_one p) = nat (p - 1) \<and> nat (p - 1) < ?L) ps \<and>
        (\<exists>acc. fst (is_accessible fs contig m analysis s) = Inr acc)"
  proof
    assume a: "list_all (\<lambda>p. 1 \<le> p \<and> p \<le> int ?L) ps"
    then have "list_all (\<lambda>p. 1 - int ?L \<le> p \<and> p \<le> int ?L) ps"
      by (auto simp: list_all_iff)
    with iff have "\<exists>acc. fst (is_accessible fs contig m analysis s) = Inr acc" by simp
    moreover have "list_all (\<lambda>p. norm_index ?L (minus_one p) = nat (p - 1) \<and> nat (p - 1) < ?L) ps"
      using a norm_index_pos[of _ ?L] by (auto simp: list_all_iff)
    ultimately show "list_all (\<lambda>p. norm_index ?L (minus_one p) = nat (p - 1) \<and> nat (p - 1) < ?L) ps \<and>
        (\<exists>acc. fst (is_accessible fs contig m analysis s) = Inr acc)" by simp
  qed
  have 3: "\<not> list_all (\<lambda>p. 1 - int ?L \<le> p \<and> p \<le> int ?L) ps \<longrightarrow>
        (\<exists>msg. fst (is_accessible fs contig m analysis s) = Inl (IndexError msg))"
  proof
    assume "\<not> list_all (\<lambda>p. 1 - int ?L \<le> p \<and> p \<le> int ?L) ps"
    then have "\<not> list_all (index_ok (length (replicate ?L False))) (map minus_one ps)"
      using ok by simp
    from setitem_IndexError[OF shape this] val
    show "\<exists>msg. fst (is_accessible fs contig m analysis s) = Inl (IndexError msg)" by simp
  qed
  have 4: "list_all (\<lambda>p. 1 - int ?L \<le> p \<and> p \<le> 0 \<longrightarrow>
                   norm_index ?L (minus_one p) = nat (p - 1 + int ?L)) ps"
    using assms(6) by (auto simp: list_all_iff norm_index_def minus_one_def)
  show ?thesis by (intro conjI 1 iff 3 4)
qed

theorem is_accessible_bounds_witness:
  "coherent example_fs example_ag3 \<and>
   fst (genome_sequence example_fs ''3R'' example_ag3) = Inr ''ACGTA'' \<and>
   fst (snp_sites example_fs ''3R'' (Some ''POS'') None ''dt_20200416'' example_ag3)
     = Inr (One (IntArray [1, 3, 4])) \<and>
   fst (site_filters example_fs ''3R'' ''gamb_colu'' ''filter_pass'' ''dt_20200416'' example_ag3)
     = Inr [True, False, True] \<and>
   list_all (\<lambda>p. 1 \<le> p \<and> p \<le> int (length ''ACGTA'')) [1, 3, 4] \<and>
   (\<exists>acc. fst (is_accessible example_fs ''3R'' ''gamb_colu'' ''dt_20200416'' example_ag3) = Inr acc) \<and>
   coherent (sites_fs [1, 3, 9]) example_ag3 \<and>
   fst (genome_sequence (sites_fs [1, 3, 9]) ''3R'' example_ag3) = Inr ''ACGTA'' \<and>
   fst (snp_sites (sites_fs [1, 3, 9]) ''3R'' (Some ''POS'') None ''dt_20200416'' example_ag3)
     = Inr (One (IntArray [1, 3, 9])) \<and>
   fst (site_filters (sites_fs [1, 3, 9]) ''3R'' ''gamb_colu'' ''filter_pass'' ''dt_20200416''
          example_ag3) = Inr [True, False, True] \<and>
   \<not> list_all (\<lambda>p. 1 - int (length ''ACGTA'') \<le> p \<and> p \<le> int (length ''ACGTA'')) [1, 3, 9] \<and>
   (\<exists>msg. fst (is_accessible (sites_fs [1, 3, 9]) ''3R'' ''gamb_colu'' ''dt_20200416'' example_ag3)
            = Inl (IndexError msg))"
proof -
  have g: "fst (genome_sequence example_fs ''3R'' example_ag3) = Inr ''ACGTA''" by code_simp
  have p: "fst (snp_sites example_fs ''3R'' (Some ''POS'') None ''dt_20200416'' example_ag3)
     = Inr (One (IntArray [1, 3, 4]))" by code_simp
  have f: "fst (site_filters example_fs ''3R'' ''gamb_colu'' ''filter_pass'' ''dt_20200416''
     example_ag3) = Inr [True, False, True]" by code_simp
  have sh: "length [True, False, True] = length [1::int, 3, 4] \<or> length [True, False, True] = 1"
    by simp
  have L: "int (length ''ACGTA'') < 2147483648" by simp
  have r: "list_all (\<lambda>p. 1 \<le> p \<and> p \<le> int (length ''ACGTA'')) [1, 3, 4]" by simp
  have ok: "\<exists>acc. fst (is_accessible example_fs ''3R'' ''gamb_colu'' ''dt_20200416'' example_ag3)
     = Inr acc"
    using is_accessible_bounds[OF example_coherent g p f sh L, THEN conjunct1, THEN mp, OF r]
    by (elim conjE)
  have g': "fst (genome_sequence (sites_fs [1, 3, 9]) ''3R'' example_ag3) = Inr ''ACGTA''"
    by code_simp
  have p': "fst (snp_sites (sites_fs [1, 3, 9]) ''3R'' (Some ''POS'') None ''dt_20200416''
     example_ag3) = Inr (One (IntArray [1, 3, 9]))" by code_simp
  have f': "fst (site_filters (sites_fs [1, 3, 9]) ''3R'' ''gamb_colu'' ''filter_pass''
     ''dt_20200416'' example_ag3) = Inr [True, False, True]" by code_simp
  have sh': "length [True, False, True] = length [1::int, 3, 9] \<or> length [True, False, True] = 1"
    by simp
  have r': "\<not> list_all (\<lambda>p. 1 - int (length ''ACGTA'') \<le> p \<and> p \<le> int (length ''ACGTA''))
     [1, 3, 9]" by simp
  have bad: "\<exists>msg. fst (is_accessible (sites_fs [1, 3, 9]) ''3R'' ''gamb_colu'' ''dt_20200416''
     example_ag3) = Inl (IndexError msg)"
    using is_accessible_bounds[OF example_coherent_any g' p' f' sh' L, THEN conjunct2,
        THEN conjunct2, THEN conjunct1, THEN mp, OF r'] .
  show ?thesis
    by (intro conjI example_coherent g p f r ok example_coherent_any g' p' f' r' bad)
qed

text \<open>
  The claim as stated fails on a store whose site list has the position 0 on a contig
  of length 5: the position is outside 1, ..., 5, yet \<^verbatim>\<open>is_accessible\<close> returns, with the
  filter value of that site written at the last index.
\<close>

theorem is_accessible_bounds_counterexample:
  "coherent (sites_fs [0, 3, 4]) example_ag3 \<and>
   fst (genome_sequence (sites_fs [0, 3, 4]) ''3R'' example_ag3) = Inr ''ACGTA'' \<and>
   fst (snp_sites (sites_fs [0, 3, 4]) ''3R'' (Some ''POS'') None ''dt_20200416'' example_ag3)
     = Inr (One (IntArray [0, 3, 4])) \<and>
   fst (site_filters (sites_fs [0, 3, 4]) ''3R'' ''gamb_colu'' ''filter_pass'' ''dt_20200416''
          example_ag3) = Inr [True, False, True] \<and>
   \<not> list_all (\<lambda>p. 1 \<le> p \<and> p \<le> int (length ''ACGTA'')) [0, 3, 4] \<and>
   fst (is_accessible (sites_fs [0, 3, 4]) ''3R'' ''gamb_colu'' ''dt_20200416'' example_ag3)
     = Inr [False, False, False, True, True]"
proof -
  have 1: "fst (genome_sequence (sites_fs [0, 3, 4]) ''3R'' example_ag3) = Inr ''ACGTA''"
    by code_simp
  have 2: "fst (snp_sites (sites_fs [0, 3, 4]) ''3R'' (Some ''POS'') None ''dt_20200416''
     example_ag3) = Inr (One (IntArray [0, 3, 4]))" by code_simp
  have 3: "fst (site_filters (sites_fs [0, 3, 4]) ''3R'' ''gamb_colu'' ''filter_pass''
     ''dt_20200416'' example_ag3) = Inr [True, False, True]" by code_simp
  have 4: "\<not> list_all (\<lambda>p. 1 \<le> p \<and> p \<le> int (length ''ACGTA'')) [0, 3, 4]" by simp
  have 5: "fst (is_accessible (sites_fs [0, 3, 4]) ''3R'' ''gamb_colu'' ''dt_20200416''
     example_ag3) = Inr [False, False, False, True, True]" by code_simp
  show ?thesis by (intro conjI example_coherent_any 1 2 3 4 5)
qed

end
